theory Spec2Isabelle
  imports Complex_Main "HOL-Library.Multiset"
begin

section \<open>Python values used by \<open>main/optimizer.py\<close>\<close>

text \<open>
  The exceptions the two source files can raise by themselves. Exceptions of the external
  libraries (RDKit, wandb, tdc, torch) are outside the model.
\<close>

datatype error =
    NameError
  | AttributeError
  | TypeError
  | IndexError
  | KeyError
  | ValueError
  | NotImplementedError
  | OSError

text \<open>
  A Python \<open>dict\<close> keeps its items in insertion order, and every key occurs once. It is an
  association list here; \<open>distinct (map fst d)\<close> is the invariant of the representation.
  \<open>d[k] = v\<close> overwrites the value in place when the key is present and appends the item
  otherwise; \<open>d[k]\<close> raises \<open>KeyError\<close> on a missing key; \<open>dict(items)\<close> stores the
  items one after the other.
\<close>

fun dict_setitem :: "('k \<times> 'v) list \<Rightarrow> 'k \<Rightarrow> 'v \<Rightarrow> ('k \<times> 'v) list" where
  "dict_setitem [] k v = [(k, v)]"
| "dict_setitem ((k', v') # d) k v =
     (if k' = k then (k', v) # d else (k', v') # dict_setitem d k v)"

definition dict_getitem :: "('k \<times> 'v) list \<Rightarrow> 'k \<Rightarrow> error + 'v" where
  "dict_getitem d k = (case map_of d k of None \<Rightarrow> Inl KeyError | Some v \<Rightarrow> Inr v)"

definition dict_of_items :: "('k \<times> 'v) list \<Rightarrow> ('k \<times> 'v) list" where
  "dict_of_items items = foldl (\<lambda>d kv. dict_setitem d (fst kv) (snd kv)) [] items"

text \<open>
  \<open>sorted(xs, key=key, reverse=reverse)\<close> is a stable sort. With \<open>reverse=True\<close> CPython
  reverses the list, sorts it and reverses the result, so that items with equal keys keep
  their original order in both directions. \<open>sort_key\<close> is the stable insertion sort of the
  library.
\<close>

definition py_sorted :: "('a \<Rightarrow> 'b::linorder) \<Rightarrow> bool \<Rightarrow> 'a list \<Rightarrow> 'a list" where
  "py_sorted key reverse xs =
     (if reverse then rev (sort_key key (rev xs)) else sort_key key xs)"

text \<open>\<open>xs[:n]\<close> for an integer \<open>n\<close>: a negative \<open>n\<close> counts from the end.\<close>

definition py_prefix :: "'a list \<Rightarrow> int \<Rightarrow> 'a list" where
  "py_prefix xs n =
     (if 0 \<le> n then take (nat n) xs else take (length xs - nat (- n)) xs)"

section \<open>The score buffer of \<open>BaseOptimizer\<close>\<close>

text \<open>
  \<open>self.mol_buffer\<close> maps a SMILES string to the two-element list \<open>[score, rank]\<close>. The
  score is what the oracle returned, a float in the source; here it is any linearly
  ordered type (a NaN score is outside the model). The rank is a Python integer.
\<close>

type_synonym 's entry = "string \<times> ('s \<times> nat)"
type_synonym 's buffer = "'s entry list"

definition score_of :: "'s entry \<Rightarrow> 's" where
  "score_of kv = fst (snd kv)"

definition rank_of :: "'s entry \<Rightarrow> nat" where
  "rank_of kv = snd (snd kv)"

text \<open>
  \<^verbatim>\<open>self.mol_buffer = dict(sorted(self.mol_buffer.items(), key=lambda kv: kv[1][0], reverse=True))\<close>
\<close>

definition sort_buffer :: "('s::linorder) buffer \<Rightarrow> 's buffer" where
  "sort_buffer mol_buffer = dict_of_items (py_sorted score_of True mol_buffer)"

text \<open>
  \<open>score_mol\<close>: the loop over \<open>mol_list\<close> carries the buffer, the score list and the
  list of SMILES strings handed to \<open>oracle_func\<close>, in call order. \<open>Chem.MolToSmiles\<close>
  is the parameter \<open>MolToSmiles\<close>. The \<open>try\<close> block can fail only in the lookup
  \<open>self.mol_buffer[smi]\<close>, so the \<open>except\<close> branch is the branch of the missing key.
\<close>

fun score_mol_loop ::
  "('m \<Rightarrow> string) \<Rightarrow> (string \<Rightarrow> 's) \<Rightarrow> 'm list \<Rightarrow> 's buffer \<times> 's list \<times> string list
     \<Rightarrow> 's buffer \<times> 's list \<times> string list" where
  "score_mol_loop MolToSmiles oracle_func [] acc = acc"
| "score_mol_loop MolToSmiles oracle_func (mol # mol_list) (mol_buffer, score_list, calls) =
     (let smi = MolToSmiles mol in
      case dict_getitem mol_buffer smi of
        Inr v \<Rightarrow>
          score_mol_loop MolToSmiles oracle_func mol_list
            (mol_buffer, score_list @ [fst v], calls)
      | Inl e \<Rightarrow>
          (let score = oracle_func smi in
           score_mol_loop MolToSmiles oracle_func mol_list
             (dict_setitem mol_buffer smi (score, length mol_buffer + 1),
              score_list @ [score], calls @ [smi])))"

definition score_mol ::
  "('m \<Rightarrow> string) \<Rightarrow> (string \<Rightarrow> 's::linorder) \<Rightarrow> 'm list \<Rightarrow> 's buffer
     \<Rightarrow> 's buffer \<times> 's list \<times> string list" where
  "score_mol MolToSmiles oracle_func mol_list mol_buffer =
     (case score_mol_loop MolToSmiles oracle_func mol_list (mol_buffer, [], []) of
        (mol_buffer', score_list, calls) \<Rightarrow> (sort_buffer mol_buffer', score_list, calls))"


text \<open>
  A sequence of \<open>score_mol\<close> calls on one optimizer, each with its own oracle function and
  molecule list. The second component collects the oracle calls of all of them, in order.
\<close>

fun score_mol_calls ::
  "('m \<Rightarrow> string) \<Rightarrow> ((string \<Rightarrow> 's::linorder) \<times> 'm list) list \<Rightarrow> 's buffer \<times> string list
     \<Rightarrow> 's buffer \<times> string list" where
  "score_mol_calls MolToSmiles [] acc = acc"
| "score_mol_calls MolToSmiles (req # reqs) (mol_buffer, call_log) =
     (case score_mol MolToSmiles (fst req) (snd req) mol_buffer of
        (mol_buffer', score_list, calls) \<Rightarrow>
          score_mol_calls MolToSmiles reqs (mol_buffer', call_log @ calls))"

text \<open>
  The items that a run of the loop appends for the keys \<open>ks\<close> it had to score, when the
  buffer held \<open>n\<close> items before: the rank is \<open>len(self.mol_buffer)+1\<close> at each insertion.
\<close>

definition new_entries :: "(string \<Rightarrow> 's) \<Rightarrow> nat \<Rightarrow> string list \<Rightarrow> 's buffer" where
  "new_entries oracle_func n ks =
     map (\<lambda>(k, r). (k, (oracle_func k, r))) (zip ks [Suc n ..< Suc n + length ks])"

text \<open>
  The invariant behind the ranks: the buffer is a rearrangement of a list \<open>b0\<close> whose keys
  are the oracle calls so far, in call order and without repetition, and whose ranks count
  up from 1.
\<close>

definition rank_inv :: "'s buffer \<Rightarrow> string list \<Rightarrow> bool" where
  "rank_inv b call_log \<longleftrightarrow>
     (\<exists>b0. mset b = mset b0 \<and> map fst b0 = call_log
         \<and> map rank_of b0 = [1 ..< Suc (length call_log)] \<and> distinct call_log)"

text \<open>Descending score order.\<close>

abbreviation desc :: "('s::linorder) buffer \<Rightarrow> bool" where
  "desc b \<equiv> sorted_wrt (\<lambda>x y. score_of y \<le> score_of x) b"

section \<open>numpy and the external scorers\<close>

text \<open>
  \<open>np.max\<close> raises \<open>ValueError\<close> on an empty sequence. \<open>np.mean\<close>, the SA scorer, the
  diversity evaluator and the molecule filter are external; they are the fields of \<open>env\<close>.
  \<open>writable\<close> says whether \<open>open(path, 'w')\<close> succeeds.
\<close>

definition np_max :: "('s::linorder) list \<Rightarrow> error + 's" where
  "np_max xs = (case xs of [] \<Rightarrow> Inl ValueError | y # ys \<Rightarrow> Inr (foldl max y ys))"

record 's env =
  np_mean :: "'s list \<Rightarrow> 's"
  sa_scorer :: "string list \<Rightarrow> 's list"
  diversity_evaluator :: "string list \<Rightarrow> 's"
  mol_filter :: "string list \<Rightarrow> string list"
  writable :: "string \<Rightarrow> bool"

text \<open>A comprehension whose body can raise: the first exception ends it.\<close>

fun map_err :: "('a \<Rightarrow> error + 'b) \<Rightarrow> 'a list \<Rightarrow> error + 'b list" where
  "map_err f [] = Inr []"
| "map_err f (x # xs) =
     (case f x of
        Inl e \<Rightarrow> Inl e
      | Inr y \<Rightarrow> (case map_err f xs of Inl e \<Rightarrow> Inl e | Inr ys \<Rightarrow> Inr (y # ys)))"

definition py_index :: "'a list \<Rightarrow> nat \<Rightarrow> error + 'a" where
  "py_index xs i = (if i < length xs then Inr (xs ! i) else Inl IndexError)"

section \<open>The optimizer object and what it sends out\<close>

text \<open>
  One row of the table "Top 100 Molecules" is \<open>(Rank, Score, #Oracle, SMILES)\<close>; the image
  column is drawn from the same SMILES string by RDKit and is left out. One row of the
  batch metrics is the oracle budget with the seven numbers of \<open>_analyze_results\<close>. The
  value \<open>len(smis_pass) / 100\<close> is kept as an exact fraction.
\<close>

type_synonym 's top_row = "nat \<times> 's \<times> nat \<times> string"

record 's metrics =
  avg_top100 :: 's
  avg_top10 :: 's
  avg_top1 :: 's
  diversity :: 's
  avg_sa :: 's
  pass_frac :: rat
  top1_pass :: 's

record 's intermediate =
  i_avg_top1 :: 's
  i_avg_top10 :: 's
  i_avg_top100 :: 's
  i_avg_sa :: 's
  i_diversity_top100 :: 's
  i_n_oracle :: nat

text \<open>
  What the harness itself does to the outside, in order: \<open>wandb.init\<close> with the project
  name, \<open>np.random.seed\<close>, the three kinds of \<open>wandb.log\<close>, \<open>yaml.dump\<close> of a dictionary
  to a path (the document is the item list in the order of the dictionary, since
  \<open>sort_keys=False\<close>), and \<open>run.finish\<close>.
\<close>

datatype 's event =
    WandbInit string
  | NpRandomSeed int
  | WandbLogIntermediate "'s intermediate"
  | WandbLogTop100 "'s top_row list"
  | WandbLogBatchMetrics "(nat \<times> 's metrics) list"
  | YamlDump string "'s buffer"
  | RunFinish

record 's state =
  model_name :: string
  output_dir :: string
  mol_buffer :: "'s buffer"
  events :: "'s event list"

record 's tdc_oracle =
  oracle_name :: string
  evaluator :: "string \<Rightarrow> 's"

type_synonym config = "(string \<times> int) list"

section \<open>\<open>log_intermediate\<close>\<close>

definition temp_top100 :: "'s buffer \<Rightarrow> 's buffer" where
  "temp_top100 b = take 100 b"

text \<open>
  With both arguments \<open>None\<close> the first 100 items of the buffer are logged; otherwise the
  given molecules and scores are (iterating over \<open>mols = None\<close>, or sorting
  \<open>scores = None\<close>, is a \<open>TypeError\<close>).
\<close>

definition log_intermediate ::
  "('s::linorder) env \<Rightarrow> ('m \<Rightarrow> string) \<Rightarrow> 'm list option \<Rightarrow> 's list option \<Rightarrow> 's state
     \<Rightarrow> error option \<times> 's state" where
  "log_intermediate env MolToSmiles mols scores st =
     (case (if mols = None \<and> scores = None
            then Inr (map fst (temp_top100 (mol_buffer st)),
                      map score_of (temp_top100 (mol_buffer st)))
            else (case mols of
                    None \<Rightarrow> Inl TypeError
                  | Some ms \<Rightarrow>
                      (case scores of
                         None \<Rightarrow> Inl TypeError
                       | Some sc \<Rightarrow> Inr (map MolToSmiles ms, sc)))) of
        Inl e \<Rightarrow> (Some e, st)
      | Inr (smis, scores') \<Rightarrow>
          (case np_max scores' of
             Inl e \<Rightarrow> (Some e, st)
           | Inr top1 \<Rightarrow>
               (None, st\<lparr>events := events st @
                  [WandbLogIntermediate
                     \<lparr>i_avg_top1 = top1,
                      i_avg_top10 = np_mean env (take 10 (py_sorted (\<lambda>x. x) True scores')),
                      i_avg_top100 = np_mean env scores',
                      i_avg_sa = np_mean env (sa_scorer env smis),
                      i_diversity_top100 = diversity_evaluator env smis,
                      i_n_oracle = length (mol_buffer st)\<rparr>]\<rparr>)))"

section \<open>\<open>log_result\<close> and \<open>_analyze_results\<close>\<close>

definition log_num_oracles :: "nat list" where
  "log_num_oracles = [100, 500, 1000, 3000, 5000, 10000]"

definition log_result_results :: "'s buffer \<Rightarrow> 's buffer" where
  "log_result_results b =
     (let results = py_sorted rank_of False b
      in if length results > 10000 then take 10000 results else results)"

definition results_all_level :: "('s::linorder) buffer \<Rightarrow> 's buffer list" where
  "results_all_level b =
     map (\<lambda>n_o. py_sorted score_of True (take n_o (log_result_results b))) log_num_oracles"

definition top100_row :: "'s buffer \<Rightarrow> nat \<Rightarrow> error + 's top_row" where
  "top100_row r i =
     (case py_index r i of
        Inl e \<Rightarrow> Inl e
      | Inr kv \<Rightarrow> Inr (i + 1, score_of kv, rank_of kv, fst kv))"

definition top100_table :: "'s buffer list \<Rightarrow> error + 's top_row list" where
  "top100_table levels = map_err (top100_row (last levels)) [0 ..< 100]"

definition analyze_results :: "('s::linorder) env \<Rightarrow> 's buffer \<Rightarrow> error + 's metrics" where
  "analyze_results env results0 =
     (let results = take 100 results0;
          scores_dict = dict_of_items (map (\<lambda>item. (fst item, score_of item)) results);
          smis = map fst results;
          scores = map score_of results;
          smis_pass = mol_filter env smis
      in case np_max scores of
           Inl e \<Rightarrow> Inl e
         | Inr top1 \<Rightarrow>
             (case map_err (dict_getitem scores_dict) smis_pass of
                Inl e \<Rightarrow> Inl e
              | Inr pass_scores \<Rightarrow>
                  (case np_max pass_scores of
                     Inl e \<Rightarrow> Inl e
                   | Inr top1p \<Rightarrow>
                       Inr \<lparr>avg_top100 = np_mean env scores,
                            avg_top10 = np_mean env (take 10 scores),
                            avg_top1 = top1,
                            diversity = diversity_evaluator env smis,
                            avg_sa = np_mean env (sa_scorer env smis),
                            pass_frac = of_nat (length smis_pass) / 100,
                            top1_pass = top1p\<rparr>)))"

definition batch_metrics :: "('s::linorder) env \<Rightarrow> 's buffer list \<Rightarrow> error + (nat \<times> 's metrics) list" where
  "batch_metrics env levels =
     map_err (\<lambda>(n_o, r). case analyze_results env r of Inl e \<Rightarrow> Inl e | Inr m \<Rightarrow> Inr (n_o, m))
       (zip log_num_oracles levels)"

definition log_result :: "('s::linorder) env \<Rightarrow> 's state \<Rightarrow> error option \<times> 's state" where
  "log_result env st =
     (let levels = results_all_level (mol_buffer st)
      in case top100_table levels of
           Inl e \<Rightarrow> (Some e, st)
         | Inr data \<Rightarrow>
             (let st1 = st\<lparr>events := events st @ [WandbLogTop100 data]\<rparr>
              in case batch_metrics env levels of
                   Inl e \<Rightarrow> (Some e, st1)
                 | Inr data2 \<Rightarrow>
                     (None, st1\<lparr>events := events st1 @ [WandbLogBatchMetrics data2]\<rparr>)))"

section \<open>\<open>save_result\<close>\<close>

text \<open>\<open>os.path.join\<close> of two components, as \<open>posixpath\<close> has it.\<close>

definition os_path_join :: "string \<Rightarrow> string \<Rightarrow> string" where
  "os_path_join a b =
     (if b \<noteq> [] \<and> hd b = CHR ''/'' then b
      else if a = [] \<or> last a = CHR ''/'' then a @ b
      else a @ ''/'' @ b)"

definition output_file_path :: "string \<Rightarrow> string option \<Rightarrow> string" where
  "output_file_path dir suffix =
     (case suffix of
        None \<Rightarrow> os_path_join dir ''results.yaml''
      | Some s \<Rightarrow> os_path_join dir (''results_'' @ s @ ''.yaml''))"

definition save_result :: "('s::linorder) env \<Rightarrow> string option \<Rightarrow> 's state \<Rightarrow> error option \<times> 's state" where
  "save_result env suffix st =
     (let path = output_file_path (output_dir st) suffix;
          st1 = st\<lparr>mol_buffer := sort_buffer (mol_buffer st)\<rparr>
      in if \<not> writable env path then (Some OSError, st1)
         else (None, st1\<lparr>events := events st1 @ [YamlDump path (mol_buffer st1)]\<rparr>))"

section \<open>\<open>optimize\<close> and \<open>production\<close>\<close>

text \<open>\<open>str(seed)\<close> for a Python integer.\<close>

fun str_nat :: "nat \<Rightarrow> string" where
  "str_nat n =
     (if n < 10 then [''0123456789'' ! n]
      else str_nat (n div 10) @ [''0123456789'' ! (n mod 10)])"

declare str_nat.simps [simp del]

definition str_int :: "int \<Rightarrow> string" where
  "str_int i = (if i < 0 then CHR ''-'' # str_nat (nat (- i)) else str_nat (nat i))"

text \<open>
  \<open>self._optimize\<close> is the method of the subclass. It is a parameter here: given the oracle,
  the configuration and the buffer it finds, it returns normally or raises, and leaves a
  buffer behind (it fills it through \<open>score_mol\<close>). \<open>np.random.seed\<close> accepts the seeds
  from 0 to \<open>2**32 - 1\<close>.
\<close>

type_synonym 's optimize_method =
  "'s tdc_oracle \<Rightarrow> config \<Rightarrow> 's buffer \<Rightarrow> error option \<times> 's buffer"

definition BaseOptimizer_optimize :: "'s optimize_method" where
  "BaseOptimizer_optimize oracle config b = (Some NotImplementedError, b)"

definition optimize ::
  "('s::linorder) env \<Rightarrow> 's optimize_method \<Rightarrow> 's tdc_oracle \<Rightarrow> config \<Rightarrow> int \<Rightarrow> 's state
     \<Rightarrow> error option \<times> 's state" where
  "optimize env opt oracle config seed st =
     (let st1 = st\<lparr>events := events st @ [WandbInit (model_name st @ ''_'' @ oracle_name oracle)]\<rparr>
      in if seed < 0 \<or> 2 ^ 32 \<le> seed then (Some ValueError, st1)
         else
           (let st2 = st1\<lparr>events := events st1 @ [NpRandomSeed seed]\<rparr>
            in case opt oracle config (mol_buffer st2) of
                 (Some e, b) \<Rightarrow> (Some e, st2\<lparr>mol_buffer := b\<rparr>)
               | (None, b) \<Rightarrow>
                   (case log_result env (st2\<lparr>mol_buffer := b\<rparr>) of
                      (Some e, st3) \<Rightarrow> (Some e, st3)
                    | (None, st3) \<Rightarrow>
                        (case save_result env
                                (Some (model_name st3 @ ''_'' @ oracle_name oracle @ ''_'' @ str_int seed))
                                st3 of
                           (Some e, st4) \<Rightarrow> (Some e, st4)
                         | (None, st4) \<Rightarrow>
                             (None, st4\<lparr>mol_buffer := [], events := events st4 @ [RunFinish]\<rparr>)))))"

definition production_seeds :: "int list" where
  "production_seeds =
     [2, 3, 5, 7, 11, 13, 17, 19, 23, 29, 31, 37, 41, 43, 47, 53, 59, 61, 67, 71, 73, 79, 83, 89, 97]"

fun production_loop ::
  "('s::linorder) env \<Rightarrow> 's optimize_method \<Rightarrow> 's tdc_oracle \<Rightarrow> config \<Rightarrow> int list \<Rightarrow> 's state
     \<Rightarrow> error option \<times> 's state" where
  "production_loop env opt oracle config [] st = (None, st)"
| "production_loop env opt oracle config (seed # seeds) st =
     (case optimize env opt oracle config seed st of
        (Some e, st') \<Rightarrow> (Some e, st')
      | (None, st') \<Rightarrow> production_loop env opt oracle config seeds (st'\<lparr>mol_buffer := []\<rparr>))"

definition production ::
  "('s::linorder) env \<Rightarrow> 's optimize_method \<Rightarrow> 's tdc_oracle \<Rightarrow> config \<Rightarrow> int \<Rightarrow> 's state
     \<Rightarrow> error option \<times> 's state" where
  "production env opt oracle config num_runs st =
     production_loop env opt oracle config (py_prefix production_seeds num_runs) st"

text \<open>The seeds that \<open>np.random.seed\<close> was called with, in order.\<close>

fun seeds_of :: "'s event list \<Rightarrow> int list" where
  "seeds_of [] = []"
| "seeds_of (NpRandomSeed s # es) = s # seeds_of es"
| "seeds_of (e # es) = seeds_of es"

section \<open>Names and attributes\<close>

text \<open>
  A value bound to a name is a string or some other object. The global names of the module
  \<open>main.optimizer\<close> are, in the order of the file: the eleven imported names, everything
  that \<open>from main.utils.chem import *\<close> brings in (the module is not among the sources, so
  its exports are the parameter \<open>chem_star\<close>), and the class itself. A name that is no
  parameter and is not assigned in a function is looked up in the globals and then in the
  builtins, and a miss is a \<open>NameError\<close>. Of the builtins only those the module uses are
  listed.
\<close>

datatype pyval = PyStr string | PyObj

definition optimizer_imports :: "string list" where
  "optimizer_imports =
     [''json'', ''os'', ''joblib'', ''yaml'', ''np'', ''delayed'', ''Chem'', ''Draw'', ''tdc'',
      ''MolGen'', ''wandb'']"

definition module_globals :: "(string \<rightharpoonup> pyval) \<Rightarrow> (string \<rightharpoonup> pyval)" where
  "module_globals chem_star =
     (map_of (map (\<lambda>n. (n, PyObj)) optimizer_imports) ++ chem_star)(''BaseOptimizer'' \<mapsto> PyObj)"

definition builtin_names :: "string list" where
  "builtin_names =
     [''open'', ''len'', ''sorted'', ''list'', ''dict'', ''set'', ''float'', ''range'',
      ''enumerate'', ''print'', ''str'', ''ValueError'', ''NotImplementedError'']"

definition load_global :: "(string \<rightharpoonup> pyval) \<Rightarrow> string \<Rightarrow> error + pyval" where
  "load_global globals name =
     (case globals name of
        Some v \<Rightarrow> Inr v
      | None \<Rightarrow> if name \<in> set builtin_names then Inr PyObj else Inl NameError)"

text \<open>\<open>s.strip()\<close> removes the whitespace at both ends.\<close>

definition is_space :: "char \<Rightarrow> bool" where
  "is_space c \<longleftrightarrow> c \<in> set [CHR '' '', CHR 0x09, CHR 0x0A, CHR 0x0B, CHR 0x0C, CHR 0x0D]"

definition py_strip :: "string \<Rightarrow> string" where
  "py_strip s = rev (dropWhile is_space (rev (dropWhile is_space s)))"

text \<open>
  \<^verbatim>\<open>def load_smiles_from_file(self, file_name):
      with open(smi_file) as f:
          return self.pool(delayed(canonicalize)(s.strip()) for s in f)\<close>
  The parameters are \<open>self\<close> and \<open>file_name\<close>; \<open>smi_file\<close> is a global name here. The file
  system maps a path to the lines of the file, and \<open>opened\<close> lists the files opened so far.
  \<open>canonicalize\<close> is the function that the star import binds, if it binds one.
\<close>

definition load_smiles_from_file ::
  "(string \<rightharpoonup> pyval) \<Rightarrow> (string \<rightharpoonup> string list) \<Rightarrow> (string \<Rightarrow> string) \<Rightarrow> string \<Rightarrow> string list
     \<Rightarrow> (error + string list) \<times> string list" where
  "load_smiles_from_file chem_star fs canonicalize file_name opened =
     (case load_global (module_globals chem_star) ''smi_file'' of
        Inl e \<Rightarrow> (Inl e, opened)
      | Inr PyObj \<Rightarrow> (Inl TypeError, opened)
      | Inr (PyStr path) \<Rightarrow>
          (case fs path of
             None \<Rightarrow> (Inl OSError, opened)
           | Some lines \<Rightarrow>
               (case load_global (module_globals chem_star) ''canonicalize'' of
                  Inl e \<Rightarrow> (if lines = [] then Inr [] else Inl e, opened @ [path])
                | Inr (PyStr c) \<Rightarrow> (if lines = [] then Inr [] else Inl TypeError, opened @ [path])
                | Inr PyObj \<Rightarrow>
                    (Inr (map (\<lambda>s. canonicalize (py_strip s)) lines), opened @ [path]))))"

text \<open>
  \<open>BaseOptimizer.__init__\<close>: \<open>args\<close> defaults to \<open>None\<close>, and \<open>args.n_jobs\<close> then is an
  \<open>AttributeError\<close>. With a file name the SMILES strings come from
  \<open>load_smiles_from_file\<close>, otherwise from the ZINC data set (\<open>zinc\<close>). The result is the
  new optimizer with its \<open>all_smiles\<close>.
\<close>

record args =
  arg_n_jobs :: int
  arg_smi_file :: "string option"
  arg_output_dir :: string

definition BaseOptimizer_init ::
  "(string \<rightharpoonup> pyval) \<Rightarrow> (string \<rightharpoonup> string list) \<Rightarrow> (string \<Rightarrow> string) \<Rightarrow> string list
     \<Rightarrow> args option \<Rightarrow> string list \<Rightarrow> (error + 's state \<times> string list) \<times> string list" where
  "BaseOptimizer_init chem_star fs canonicalize zinc args opened =
     (case args of
        None \<Rightarrow> (Inl AttributeError, opened)
      | Some a \<Rightarrow>
          (let self = \<lparr>model_name = ''Default'', output_dir = arg_output_dir a,
                       mol_buffer = [], events = []\<rparr>
           in case arg_smi_file a of
                Some file_name \<Rightarrow>
                  (case load_smiles_from_file chem_star fs canonicalize file_name opened of
                     (Inl e, opened') \<Rightarrow> (Inl e, opened')
                   | (Inr all_smiles, opened') \<Rightarrow> (Inr (self, all_smiles), opened'))
              | None \<Rightarrow> (Inr (self, zinc), opened)))"

text \<open>
  The attributes of a \<open>DoG_Gen_Optimizer\<close> after construction: those that
  \<open>BaseOptimizer.__init__\<close> assigns (\<open>DoG_Gen_Optimizer.__init__\<close> only assigns
  \<open>model_name\<close> again) and the methods of the two classes.
\<close>

definition BaseOptimizer_instance_attrs :: "string list" where
  "BaseOptimizer_instance_attrs =
     [''model_name'', ''args'', ''n_jobs'', ''pool'', ''smi_file'', ''mol_buffer'', ''all_smiles'',
      ''sa_scorer'', ''diversity_evaluator'', ''filter'']"

definition BaseOptimizer_methods :: "string list" where
  "BaseOptimizer_methods =
     [''__init__'', ''load_smiles_from_file'', ''sanitize'', ''sort_buffer'', ''score_mol'',
      ''log_intermediate'', ''log_result'', ''save_result'', ''_analyze_results'', ''_optimize'',
      ''hparam_tune'', ''optimize'', ''production'']"

definition DoG_Gen_Optimizer_attrs :: "string list" where
  "DoG_Gen_Optimizer_attrs =
     BaseOptimizer_instance_attrs @ [''__init__'', ''_optimize''] @ BaseOptimizer_methods"

section \<open>\<open>DoG_Gen_Optimizer._optimize\<close>\<close>

text \<open>
  The calls that \<open>_optimize\<close> makes into the external modules, in order, with the arguments
  that the source fixes. \<open>RunHillclimbing\<close> carries the files whose trees are passed on,
  in the order of the concatenation.
\<close>

datatype dog_call =
    AssignEvaluator string
  | RandomState int
  | TorchManualSeed int
  | LoadTupleTrees string
  | LoadDoggenModel string
  | SummaryWriter string
  | HillclimbingParams int int int
  | RunHillclimbing "string list"

text \<open>
  \<open>attrs\<close> are the attributes of \<open>self\<close> at the call, \<open>path_here\<close> the directory of
  \<open>run.py\<close>, and \<open>hillclimb\<close> what the external hillclimber does to the buffer. The first
  statement reads \<open>self.oracle\<close>; the configuration is read with \<open>config[...]\<close>.
\<close>

definition DoG_Gen_optimize ::
  "string list \<Rightarrow> string \<Rightarrow> ('s buffer \<Rightarrow> 's buffer) \<Rightarrow> 's tdc_oracle \<Rightarrow> config \<Rightarrow> 's buffer
     \<Rightarrow> (error option \<times> 's buffer) \<times> dog_call list" where
  "DoG_Gen_optimize attrs path_here hillclimb oracle config b =
     (if ''oracle'' \<notin> set attrs then ((Some AttributeError, b), [])
      else
        (let weight_path = os_path_join path_here ''scripts/dog_gen/chkpts/doggen_weights.pth.pick'';
             train_tree_path = os_path_join path_here
               ''scripts/dataset_creation/data/uspto-train-depth_and_tree_tuples.pick'';
             valid_tree_path = os_path_join path_here
               ''scripts/dataset_creation/data/uspto-valid-depth_and_tree_tuples.pick'';
             calls = [AssignEvaluator (oracle_name oracle), RandomState 5156, TorchManualSeed 5115,
                      LoadTupleTrees train_tree_path, LoadTupleTrees valid_tree_path,
                      LoadDoggenModel weight_path, SummaryWriter ''tb_logs'']
         in case dict_getitem config ''n_rounds'' of
              Inl e \<Rightarrow> ((Some e, b), calls)
            | Inr n_rounds \<Rightarrow>
                (case dict_getitem config ''n_samples_per_round'' of
                   Inl e \<Rightarrow> ((Some e, b), calls)
                 | Inr n_samples_per_round \<Rightarrow>
                     (case dict_getitem config ''n_samples_to_keep_per_round'' of
                        Inl e \<Rightarrow> ((Some e, b), calls)
                      | Inr n_samples_to_keep_per_round \<Rightarrow>
                          ((None, hillclimb b),
                           calls @
                             [HillclimbingParams n_rounds n_samples_per_round
                                n_samples_to_keep_per_round,
                              RunHillclimbing [train_tree_path, valid_tree_path]])))))"

text \<open>The method as \<open>optimize\<close> and \<open>production\<close> call it.\<close>

definition DoG_Gen_method :: "string list \<Rightarrow> string \<Rightarrow> ('s buffer \<Rightarrow> 's buffer) \<Rightarrow> 's optimize_method" where
  "DoG_Gen_method attrs path_here hillclimb oracle config b =
     fst (DoG_Gen_optimize attrs path_here hillclimb oracle config b)"

section \<open>Example inputs\<close>

text \<open>
  A molecule filter is well behaved when it returns a non-empty sublist of a non-empty list.
  \<open>alkanes n\<close> are the SMILES strings of the first \<open>n\<close> linear alkanes (C, CC, CCC, ...).
  \<open>example_env\<close> is an environment in which every molecule passes the filter and every
  file can be written.
\<close>

definition filter_ok :: "'s env \<Rightarrow> bool" where
  "filter_ok env \<longleftrightarrow>
     (\<forall>smis. smis \<noteq> [] \<longrightarrow> mol_filter env smis \<noteq> [] \<and> set (mol_filter env smis) \<subseteq> set smis)"

definition alkanes :: "nat \<Rightarrow> string list" where
  "alkanes n = map (\<lambda>i. replicate (Suc i) CHR ''C'') [0 ..< n]"

definition example_env :: "int env" where
  "example_env =
     \<lparr>np_mean = (\<lambda>xs. if xs = [] then 0 else sum_list xs div int (length xs)),
      sa_scorer = map (\<lambda>s. int (length s)),
      diversity_evaluator = (\<lambda>smis. 0),
      mol_filter = (\<lambda>smis. smis),
      writable = (\<lambda>p. True)\<rparr>"

text \<open>
  An oracle that scores a SMILES string by its length, a subclass method that scores the
  first 100 alkanes with the oracle it is given, and a fresh optimizer.
\<close>

definition example_oracle :: "int tdc_oracle" where
  "example_oracle = \<lparr>oracle_name = ''qed'', evaluator = (\<lambda>s. int (length s))\<rparr>"

definition example_optimize :: "int optimize_method" where
  "example_optimize oracle config b =
     (None, fst (score_mol (\<lambda>m. m) (evaluator oracle) (alkanes 100) b))"

definition example_state :: "int state" where
  "example_state = \<lparr>model_name = ''dog_gen'', output_dir = ''out'', mol_buffer = [], events = []\<rparr>"

section \<open>Dictionaries and sorting: basic facts\<close>

lemma dict_setitem_fresh:
  "k \<notin> fst ` set d \<Longrightarrow> dict_setitem d k v = d @ [(k, v)]"
  by (induction d) auto

lemma map_of_dict_setitem:
  "map_of (dict_setitem d k v) = (map_of d)(k \<mapsto> v)"
  by (induction d) (auto simp: fun_eq_iff)

lemma dict_of_items_distinct:
  assumes "distinct (map fst items)"
  shows "dict_of_items items = items"
proof -
  have "distinct (map fst (d @ xs)) \<Longrightarrow>
        foldl (\<lambda>d kv. dict_setitem d (fst kv) (snd kv)) d xs = d @ xs" for d xs :: "('a \<times> 'b) list"
  proof (induction xs arbitrary: d)
    case Nil
    then show ?case by simp
  next
    case (Cons x xs)
    from Cons.prems have fresh: "fst x \<notin> fst ` set d" by auto
    from Cons.prems have "distinct (map fst ((d @ [x]) @ xs))" by simp
    from Cons.IH [OF this] fresh show ?case
      by (simp add: dict_setitem_fresh)
  qed
  from this [of "[]" items] assms show ?thesis
    by (simp add: dict_of_items_def)
qed

lemma mset_py_sorted: "mset (py_sorted key reverse xs) = mset xs"
  by (simp add: py_sorted_def)

lemma set_py_sorted: "set (py_sorted key reverse xs) = set xs"
  by (simp add: py_sorted_def)

lemma length_py_sorted: "length (py_sorted key reverse xs) = length xs"
  by (simp add: py_sorted_def)

lemma distinct_keys_mset:
  assumes "mset xs = mset ys" and "distinct (map fst ys)"
  shows "distinct (map fst xs)"
proof -
  from assms(1) have "mset (map fst xs) = mset (map fst ys)" by simp
  with assms(2) show ?thesis by (metis mset_eq_imp_distinct_iff)
qed

lemma py_sorted_desc: "sorted (rev (map key (py_sorted key True xs)))"
  by (simp add: py_sorted_def rev_map [symmetric])

lemma py_sorted_asc: "sorted (map key (py_sorted key False xs))"
  by (simp add: py_sorted_def)

lemma py_sorted_id_desc:
  "sorted (rev (map key xs)) \<Longrightarrow> py_sorted key True xs = xs"
  by (simp add: py_sorted_def rev_map [symmetric] sort_key_id_if_sorted)

lemma sort_buffer_eq:
  "distinct (map fst b) \<Longrightarrow> sort_buffer b = py_sorted score_of True b"
  unfolding sort_buffer_def
  by (rule dict_of_items_distinct) (rule distinct_keys_mset [OF mset_py_sorted])

lemma mset_sort_buffer: "distinct (map fst b) \<Longrightarrow> mset (sort_buffer b) = mset b"
  by (simp add: sort_buffer_eq mset_py_sorted)

lemma distinct_sort_buffer: "distinct (map fst b) \<Longrightarrow> distinct (map fst (sort_buffer b))"
  by (rule distinct_keys_mset [OF mset_sort_buffer])

lemma map_of_mset_eq:
  assumes "mset xs = mset ys" and "distinct (map fst ys)"
  shows "map_of xs = map_of ys"
proof -
  have dx: "distinct (map fst xs)" by (rule distinct_keys_mset [OF assms])
  from assms(1) have "set xs = set ys" by (rule mset_eq_setD)
  with dx assms(2) show ?thesis by (simp add: map_of_inject_set)
qed

lemma map_of_sort_buffer: "distinct (map fst b) \<Longrightarrow> map_of (sort_buffer b) = map_of b"
  by (rule map_of_mset_eq [OF mset_sort_buffer])

lemma sorted_sort_buffer:
  "distinct (map fst b) \<Longrightarrow> sorted (rev (map score_of (sort_buffer b)))"
  by (simp add: sort_buffer_eq py_sorted_desc)

section \<open>\<open>sort_buffer\<close>\<close>

text \<open>
  Claim C5. \<open>sort_buffer\<close> keeps the items of the buffer as they are (as a multiset, hence
  the same key-to-value map and the same length), puts them in non-increasing score order,
  and is idempotent.
\<close>

theorem sort_buffer_correct:
  assumes "distinct (map fst b)"
  shows "mset (sort_buffer b) = mset b
       \<and> map_of (sort_buffer b) = map_of b
       \<and> length (sort_buffer b) = length b
       \<and> distinct (map fst (sort_buffer b))
       \<and> sorted_wrt (\<lambda>a b. score_of a \<ge> score_of b) (sort_buffer b)
       \<and> sort_buffer (sort_buffer b) = sort_buffer b"
proof -
  have m: "mset (sort_buffer b) = mset b"
    by (rule mset_sort_buffer [OF assms])
  have l: "length (sort_buffer b) = length b"
    using m by (rule mset_eq_length)
  have f: "map_of (sort_buffer b) = map_of b"
    by (rule map_of_sort_buffer [OF assms])
  have d: "distinct (map fst (sort_buffer b))"
    by (rule distinct_sort_buffer [OF assms])
  have s: "sorted (rev (map score_of (sort_buffer b)))"
    by (rule sorted_sort_buffer [OF assms])
  then have w: "sorted_wrt (\<lambda>a b. score_of a \<ge> score_of b) (sort_buffer b)"
    by (simp add: sorted_wrt_rev sorted_wrt_map sorted_map rev_map)
  from s have i: "sort_buffer (sort_buffer b) = sort_buffer b"
    by (simp add: sort_buffer_eq [OF d] py_sorted_id_desc)
  from m f l d w i show ?thesis by blast
qed

theorem sort_buffer_correct_witness:
  "distinct (map fst [(''CC'', (1::int, 1::nat)), (''CO'', (3, 2)), (''CN'', (3, 3)), (''C'', (2, 4))])
   \<and> sort_buffer [(''CC'', (1::int, 1::nat)), (''CO'', (3, 2)), (''CN'', (3, 3)), (''C'', (2, 4))]
       = [(''CO'', (3, 2)), (''CN'', (3, 3)), (''C'', (2, 4)), (''CC'', (1, 1))]
   \<and> sort_buffer (sort_buffer [(''CC'', (1::int, 1::nat)), (''CO'', (3, 2)), (''CN'', (3, 3)), (''C'', (2, 4))])
       = sort_buffer [(''CC'', (1::int, 1::nat)), (''CO'', (3, 2)), (''CN'', (3, 3)), (''C'', (2, 4))]"
proof -
  have h: "distinct (map fst [(''CC'', (1::int, 1::nat)), (''CO'', (3, 2)), (''CN'', (3, 3)), (''C'', (2, 4))])"
    by simp
  have e: "sort_buffer [(''CC'', (1::int, 1::nat)), (''CO'', (3, 2)), (''CN'', (3, 3)), (''C'', (2, 4))]
       = [(''CO'', (3, 2)), (''CN'', (3, 3)), (''C'', (2, 4)), (''CC'', (1, 1))]"
    by (simp add: sort_buffer_def dict_of_items_def py_sorted_def score_of_def)
  from sort_buffer_correct [OF h] h e show ?thesis by blast
qed


section \<open>\<open>score_mol\<close>\<close>

lemma new_entries_Cons:
  "new_entries f n (k # ks) = (k, (f k, Suc n)) # new_entries f (Suc n) ks"
proof -
  have "[Suc n ..< Suc n + length (k # ks)] = Suc n # [Suc (Suc n) ..< Suc (Suc n) + length ks]"
    by (subst upt_rec) simp
  then show ?thesis by (simp add: new_entries_def)
qed

lemma map_fst_new_entries: "map fst (new_entries f n ks) = ks"
  by (induction ks arbitrary: n) (simp add: new_entries_def, simp add: new_entries_Cons)

lemma score_mol_loop_closed:
  assumes "distinct (map fst b)"
  shows "\<exists>new. score_mol_loop M f mols (b, sl, c) =
           (b @ new_entries f (length b) new,
            sl @ map (\<lambda>m. case map_of b (M m) of Some v \<Rightarrow> fst v | None \<Rightarrow> f (M m)) mols,
            c @ new)
         \<and> distinct new \<and> set new = M ` set mols - fst ` set b"
  using assms
proof (induction mols arbitrary: b sl c)
  case Nil
  show ?case by (rule exI [of _ "[]"]) (simp add: new_entries_def)
next
  case (Cons m mols)
  show ?case
  proof (cases "map_of b (M m)")
    case (Some v)
    then have mem: "M m \<in> fst ` set b" by (metis map_of_eq_None_iff option.distinct(1))
    from Cons.IH [OF Cons.prems, of "sl @ [fst v]" c] obtain new where
      n: "score_mol_loop M f mols (b, sl @ [fst v], c) =
           (b @ new_entries f (length b) new,
            (sl @ [fst v]) @ map (\<lambda>m. case map_of b (M m) of Some v \<Rightarrow> fst v | None \<Rightarrow> f (M m)) mols,
            c @ new)" "distinct new" "set new = M ` set mols - fst ` set b" by blast
    show ?thesis
      using n Some mem by (intro exI [of _ new]) (auto simp: dict_getitem_def)
  next
    case None
    then have fresh: "M m \<notin> fst ` set b" by (simp add: map_of_eq_None_iff)
    let ?b1 = "b @ [(M m, (f (M m), length b + 1))]"
    have d1: "distinct (map fst ?b1)" using Cons.prems fresh by auto
    from Cons.IH [OF d1, of "sl @ [f (M m)]" "c @ [M m]"] obtain new where
      n: "score_mol_loop M f mols (?b1, sl @ [f (M m)], c @ [M m]) =
           (?b1 @ new_entries f (length ?b1) new,
            (sl @ [f (M m)]) @ map (\<lambda>x. case map_of ?b1 (M x) of Some v \<Rightarrow> fst v | None \<Rightarrow> f (M x)) mols,
            (c @ [M m]) @ new)" "distinct new" "set new = M ` set mols - fst ` set ?b1" by blast
    have sc: "(case map_of ?b1 (M x) of Some v \<Rightarrow> fst v | None \<Rightarrow> f (M x))
            = (case map_of b (M x) of Some v \<Rightarrow> fst v | None \<Rightarrow> f (M x))" for x
      using None by (cases "M x = M m") (auto simp: map_of_append split: option.splits)
    note n' = n(1) [unfolded sc]
    show ?thesis
      using n' n(2,3) None fresh
      by (intro exI [of _ "M m # new"])
         (auto simp: dict_getitem_def dict_setitem_fresh new_entries_Cons Let_def)
  qed
qed

lemma rank_new_entries: "map rank_of (new_entries f n ks) = [Suc n ..< Suc n + length ks]"
proof -
  have "map rank_of (new_entries f n ks) = map snd (zip ks [Suc n ..< Suc n + length ks])"
    by (simp add: new_entries_def rank_of_def split_def)
  then show ?thesis by simp
qed

lemma score_new_entries: "e \<in> set (new_entries f n ks) \<Longrightarrow> score_of e = f (fst e)"
  by (auto simp: new_entries_def score_of_def)

lemma map_of_new_entries:
  assumes "k \<in> set ks"
  shows "\<exists>r. map_of (new_entries f n ks) k = Some (f k, r)"
proof -
  from assms have "k \<in> fst ` set (new_entries f n ks)"
    by (metis map_fst_new_entries set_map)
  then obtain y where y: "map_of (new_entries f n ks) k = Some y"
    by (metis map_of_eq_None_iff not_Some_eq)
  then have "(k, y) \<in> set (new_entries f n ks)" by (rule map_of_SomeD)
  from score_new_entries [OF this] have "fst y = f k" by (simp add: score_of_def)
  with y show ?thesis by (cases y) auto
qed

lemma score_mol_closed:
  assumes "distinct (map fst b)"
  shows "\<exists>new. score_mol M f mols b =
           (sort_buffer (b @ new_entries f (length b) new),
            map (\<lambda>m. case map_of b (M m) of Some v \<Rightarrow> fst v | None \<Rightarrow> f (M m)) mols,
            new)
         \<and> distinct new \<and> set new = M ` set mols - fst ` set b
         \<and> distinct (map fst (b @ new_entries f (length b) new))"
proof -
  from score_mol_loop_closed [OF assms, of M f mols "[]" "[]"] obtain new where
    n: "score_mol_loop M f mols (b, [], []) =
           (b @ new_entries f (length b) new,
            map (\<lambda>m. case map_of b (M m) of Some v \<Rightarrow> fst v | None \<Rightarrow> f (M m)) mols,
            new)" "distinct new" "set new = M ` set mols - fst ` set b"
    by auto
  have "distinct (map fst (b @ new_entries f (length b) new))"
    using assms n(2,3) by (auto simp: map_fst_new_entries)
  with n show ?thesis by (intro exI [of _ new]) (simp add: score_mol_def)
qed

text \<open>
  Claim C1. \<open>score_mol\<close> on a dictionary \<open>b\<close>: the oracle is called once for each
  distinct SMILES string of the list that is not a key of \<open>b\<close>, and for no other string;
  every item of \<open>b\<close> is kept with its value; the score list has one score for each
  molecule, at the same position: the cached score for a key of \<open>b\<close>, the oracle's value
  otherwise, and in both cases the score stored under that key afterwards.
\<close>

theorem score_mol_cache:
  assumes "distinct (map fst b)"
    and "score_mol MolToSmiles oracle_func mol_list b = (b', score_list, calls)"
  shows "distinct calls
       \<and> set calls = MolToSmiles ` set mol_list - fst ` set b
       \<and> (\<forall>k v. map_of b k = Some v \<longrightarrow> map_of b' k = Some v)
       \<and> distinct (map fst b')
       \<and> length score_list = length mol_list
       \<and> (\<forall>i < length mol_list. \<forall>v. map_of b (MolToSmiles (mol_list ! i)) = Some v
              \<longrightarrow> score_list ! i = fst v)
       \<and> (\<forall>i < length mol_list. map_of b (MolToSmiles (mol_list ! i)) = None
              \<longrightarrow> score_list ! i = oracle_func (MolToSmiles (mol_list ! i)))
       \<and> (\<forall>i < length mol_list.
              \<exists>r. map_of b' (MolToSmiles (mol_list ! i)) = Some (score_list ! i, r))"
proof -
  let ?sc = "\<lambda>m. case map_of b (MolToSmiles m) of Some v \<Rightarrow> fst v | None \<Rightarrow> oracle_func (MolToSmiles m)"
  from score_mol_closed [OF assms(1), of MolToSmiles oracle_func mol_list] assms(2)
  have b': "b' = sort_buffer (b @ new_entries oracle_func (length b) calls)"
    and sl: "score_list = map ?sc mol_list"
    and dc: "distinct calls"
    and sc: "set calls = MolToSmiles ` set mol_list - fst ` set b"
    and d: "distinct (map fst (b @ new_entries oracle_func (length b) calls))"
    by auto
  have m: "map_of b' = map_of (b @ new_entries oracle_func (length b) calls)"
    unfolding b' by (rule map_of_sort_buffer [OF d])
  have keep: "map_of b' k = Some v" if "map_of b k = Some v" for k v
    using that by (simp add: m map_of_append)
  have db: "distinct (map fst b')"
    unfolding b' by (rule distinct_sort_buffer [OF d])
  have stored: "\<exists>r. map_of b' (MolToSmiles (mol_list ! i)) = Some (score_list ! i, r)"
    if i: "i < length mol_list" for i
  proof (cases "map_of b (MolToSmiles (mol_list ! i))")
    case (Some v)
    with keep [OF Some] i show ?thesis by (cases v) (simp add: sl)
  next
    case None
    then have "MolToSmiles (mol_list ! i) \<notin> fst ` set b" by (simp add: map_of_eq_None_iff)
    with i have "MolToSmiles (mol_list ! i) \<in> set calls" by (simp add: sc)
    from map_of_new_entries [OF this, of oracle_func "length b"] None i
    show ?thesis by (auto simp: m map_of_append map_add_def sl)
  qed
  show ?thesis
    using dc sc keep db stored by (auto simp: sl)
qed

theorem score_mol_cache_witness:
  "distinct (map fst [(''CC'', (5::int, 1::nat))])
   \<and> score_mol (\<lambda>m. m) (\<lambda>s. int (length s)) [''CC'', ''CO'', ''CO'', ''C''] [(''CC'', (5, 1))]
       = ([(''CC'', (5, 1)), (''CO'', (2, 2)), (''C'', (1, 3))], [5, 2, 2, 1], [''CO'', ''C''])
   \<and> distinct [''CO'', ''C'']
   \<and> map_of [(''CC'', (5::int, 1::nat)), (''CO'', (2, 2)), (''C'', (1, 3))] ''CC'' = Some (5, 1)
   \<and> length [5::int, 2, 2, 1] = length [''CC'', ''CO'', ''CO'', ''C'']"
proof -
  have h: "distinct (map fst [(''CC'', (5::int, 1::nat))])" by simp
  have e: "score_mol (\<lambda>m. m) (\<lambda>s. int (length s)) [''CC'', ''CO'', ''CO'', ''C''] [(''CC'', (5, 1))]
       = ([(''CC'', (5, 1)), (''CO'', (2, 2)), (''C'', (1, 3))], [5, 2, 2, 1], [''CO'', ''C''])"
    by (simp add: score_mol_def dict_getitem_def sort_buffer_def dict_of_items_def
          py_sorted_def score_of_def Let_def)
  from score_mol_cache [OF h e] h e show ?thesis by simp
qed


section \<open>Insertion ranks\<close>

lemma rank_inv_empty: "rank_inv [] []"
  by (simp add: rank_inv_def)

lemma rank_inv_distinct: "rank_inv b l \<Longrightarrow> distinct (map fst b)"
  unfolding rank_inv_def by (metis distinct_keys_mset)

lemma rank_inv_step:
  assumes "rank_inv b l" and "score_mol M f mols b = (b', sl, calls)"
  shows "rank_inv b' (l @ calls)"
proof -
  from assms(1) obtain b0 where b0: "mset b = mset b0" "map fst b0 = l"
    "map rank_of b0 = [1 ..< Suc (length l)]" "distinct l"
    unfolding rank_inv_def by blast
  have d: "distinct (map fst b)" by (rule rank_inv_distinct [OF assms(1)])
  from score_mol_closed [OF d, of M f mols] assms(2)
  have b': "b' = sort_buffer (b @ new_entries f (length b) calls)"
    and dc: "distinct calls"
    and sc: "set calls = M ` set mols - fst ` set b"
    and dd: "distinct (map fst (b @ new_entries f (length b) calls))"
    by auto
  have len: "length b = length l"
    using b0(1,2) by (metis length_map mset_eq_length)
  have keys: "fst ` set b = set l"
    using b0(1,2) by (metis mset_eq_setD set_map)
  let ?b1 = "b0 @ new_entries f (length b) calls"
  have 1: "mset b' = mset ?b1"
    unfolding b' using mset_sort_buffer [OF dd] b0(1) by simp
  have 2: "map fst ?b1 = l @ calls"
    by (simp add: b0(2) map_fst_new_entries)
  have "[Suc 0 ..< Suc (length l) + length calls]
      = [Suc 0 ..< Suc (length l)] @ [Suc (length l) ..< Suc (length l) + length calls]"
    by (rule upt_add_eq_append) simp
  then have 3: "map rank_of ?b1 = [1 ..< Suc (length (l @ calls))]"
    by (simp add: b0(3) rank_new_entries len del: upt_Suc)
  have 4: "distinct (l @ calls)"
    using b0(4) dc sc keys by auto
  from 1 2 3 4 show ?thesis unfolding rank_inv_def by blast
qed

lemma score_mol_calls_inv:
  "rank_inv b l \<Longrightarrow> score_mol_calls M reqs (b, l) = (b', l') \<Longrightarrow> rank_inv b' l'"
proof (induction reqs arbitrary: b l)
  case Nil
  then show ?case by simp
next
  case (Cons req reqs)
  obtain b1 sl calls where s: "score_mol M (fst req) (snd req) b = (b1, sl, calls)"
    by (metis prod_cases3)
  from rank_inv_step [OF Cons.prems(1) s] have "rank_inv b1 (l @ calls)" .
  moreover from Cons.prems(2) s have "score_mol_calls M reqs (b1, l @ calls) = (b', l')"
    by simp
  ultimately show ?case by (rule Cons.IH)
qed

lemma rank_inv_sorted:
  assumes "rank_inv b l"
  shows "map fst (py_sorted rank_of False b) = l
       \<and> map rank_of (py_sorted rank_of False b) = [1 ..< Suc (length b)]
       \<and> length l = length b"
proof -
  from assms obtain b0 where b0: "mset b = mset b0" "map fst b0 = l"
    "map rank_of b0 = [1 ..< Suc (length l)]" "distinct l"
    unfolding rank_inv_def by blast
  have len: "length b = length l"
    using b0(1,2) by (metis length_map mset_eq_length)
  have "distinct (map rank_of b0)" unfolding b0(3) by (rule distinct_upt)
  then have "distinct (map rank_of b)"
    using b0(1) by (metis mset_eq_imp_distinct_iff mset_map)
  then have inj: "inj_on rank_of (set b)" by (simp add: distinct_map)
  have "sorted (map rank_of b0)" unfolding b0(3) by (rule sorted_upt)
  from sort_key_inj_key_eq [OF b0(1) inj this] have "py_sorted rank_of False b = b0"
    by (simp add: py_sorted_def)
  with b0 len show ?thesis by simp
qed

lemma map_of_new_entries_nth:
  assumes "distinct ks" and "i < length ks"
  shows "map_of (new_entries f n ks) (ks ! i) = Some (f (ks ! i), Suc n + i)"
proof -
  have d: "distinct (map fst (new_entries f n ks))"
    by (simp add: map_fst_new_entries assms(1))
  have "new_entries f n ks ! i = (ks ! i, (f (ks ! i), Suc n + i))"
    using assms(2) by (simp add: new_entries_def del: upt_Suc)
  moreover have "i < length (new_entries f n ks)"
    using assms(2) by (simp add: new_entries_def)
  ultimately have "(ks ! i, (f (ks ! i), Suc n + i)) \<in> set (new_entries f n ks)"
    by (metis nth_mem)
  with d show ?thesis by simp
qed

text \<open>
  Claim C2. After any sequence of \<open>score_mol\<close> calls on an empty buffer, the buffer \<open>b\<close> is a
  dictionary whose ranks are distinct and are exactly 1 to \<open>length b\<close>; sorting the items by
  rank gives the keys in the order of their first insertion, which is the order of the oracle
  calls. In a further call, the \<open>i\<close>-th key inserted gets the rank \<open>length b + i + 1\<close>:
  the size of the buffer just before that insertion, plus one.
\<close>

theorem insertion_rank_invariant:
  assumes "score_mol_calls MolToSmiles reqs ([], []) = (b, call_log)"
  shows "distinct (map fst b)
       \<and> length call_log = length b
       \<and> distinct (map rank_of b)
       \<and> set (map rank_of b) = {1 .. length b}
       \<and> map rank_of (py_sorted rank_of False b) = [1 ..< Suc (length b)]
       \<and> map fst (py_sorted rank_of False b) = call_log
       \<and> (\<forall>oracle_func mol_list b' score_list calls i.
             score_mol MolToSmiles oracle_func mol_list b = (b', score_list, calls) \<and> i < length calls
             \<longrightarrow> map_of b' (calls ! i) = Some (oracle_func (calls ! i), length b + i + 1))"
proof -
  have inv: "rank_inv b call_log"
    by (rule score_mol_calls_inv [OF rank_inv_empty assms])
  have d: "distinct (map fst b)" by (rule rank_inv_distinct [OF inv])
  from rank_inv_sorted [OF inv]
  have k: "map fst (py_sorted rank_of False b) = call_log"
    and r: "map rank_of (py_sorted rank_of False b) = [1 ..< Suc (length b)]"
    and l: "length call_log = length b" by auto
  have "mset (map rank_of b) = mset (map rank_of (py_sorted rank_of False b))"
    by (simp add: mset_py_sorted)
  then have m: "mset (map rank_of b) = mset [1 ..< Suc (length b)]" by (simp only: r)
  have dr: "distinct (map rank_of b)"
    using m by (metis distinct_upt mset_eq_imp_distinct_iff)
  have sr: "set (map rank_of b) = {1 .. length b}"
    using mset_eq_setD [OF m] by (simp only: set_upt atLeastLessThanSuc_atLeastAtMost)
  have nx: "map_of b' (calls ! i) = Some (f (calls ! i), length b + i + 1)"
    if s: "score_mol MolToSmiles f mols b = (b', sl, calls)" and i: "i < length calls"
    for f mols b' sl calls i
  proof -
    from score_mol_closed [OF d, of MolToSmiles f mols] s
    have b': "b' = sort_buffer (b @ new_entries f (length b) calls)"
      and dc: "distinct calls"
      and sc: "set calls = MolToSmiles ` set mols - fst ` set b"
      and dd: "distinct (map fst (b @ new_entries f (length b) calls))"
      by auto
    from i sc have "calls ! i \<notin> fst ` set b" by (metis DiffD2 nth_mem)
    then have "map_of b (calls ! i) = None" by (simp add: map_of_eq_None_iff)
    then show ?thesis
      unfolding b' map_of_sort_buffer [OF dd]
      by (simp add: map_of_append map_add_def map_of_new_entries_nth [OF dc i])
  qed
  from d l dr sr r k nx show ?thesis by blast
qed

theorem insertion_rank_invariant_witness:
  "score_mol_calls (\<lambda>m. m)
      [(\<lambda>s. int (length s), [''CC'', ''C'']), (\<lambda>s. 10, [''C'', ''CCO''])] ([], [])
     = ([(''CCO'', (10, 3)), (''CC'', (2, 1)), (''C'', (1, 2))], [''CC'', ''C'', ''CCO''])
   \<and> map fst (py_sorted rank_of False [(''CCO'', (10::int, 3)), (''CC'', (2, 1)), (''C'', (1, 2))])
       = [''CC'', ''C'', ''CCO'']
   \<and> set (map rank_of [(''CCO'', (10::int, 3)), (''CC'', (2, 1)), (''C'', (1, 2))]) = {1 .. 3}
   \<and> score_mol (\<lambda>m. m) (\<lambda>s. 7) [''O'', ''CC'', ''N'']
         [(''CCO'', (10::int, 3)), (''CC'', (2, 1)), (''C'', (1, 2))]
       = ([(''CCO'', (10, 3)), (''O'', (7, 4)), (''N'', (7, 5)), (''CC'', (2, 1)), (''C'', (1, 2))],
          [7, 2, 7], [''O'', ''N''])
   \<and> map_of [(''CCO'', (10::int, 3)), (''O'', (7, 4)), (''N'', (7, 5)), (''CC'', (2, 1)), (''C'', (1, 2))] ''N''
       = Some (7, 5)"
proof -
  let ?b = "[(''CCO'', (10::int, 3::nat)), (''CC'', (2, 1)), (''C'', (1, 2))]"
  let ?b' = "[(''CCO'', (10::int, 3::nat)), (''O'', (7, 4)), (''N'', (7, 5)), (''CC'', (2, 1)), (''C'', (1, 2))]"
  have e: "score_mol_calls (\<lambda>m. m)
      [(\<lambda>s. int (length s), [''CC'', ''C'']), (\<lambda>s. 10, [''C'', ''CCO''])] ([], [])
     = (?b, [''CC'', ''C'', ''CCO''])"
    by (simp add: score_mol_def dict_getitem_def sort_buffer_def dict_of_items_def
          py_sorted_def score_of_def Let_def)
  have n: "score_mol (\<lambda>m. m) (\<lambda>s. 7) [''O'', ''CC'', ''N''] ?b = (?b', [7, 2, 7], [''O'', ''N''])"
    by (simp add: score_mol_def dict_getitem_def sort_buffer_def dict_of_items_def
          py_sorted_def score_of_def Let_def)
  note t = insertion_rank_invariant [OF e]
  from t have 1: "map fst (py_sorted rank_of False ?b) = [''CC'', ''C'', ''CCO'']" by blast
  from t have 2: "set (map rank_of ?b) = {1 .. length ?b}" by blast
  from t n have 3: "map_of ?b' ([''O'', ''N''] ! 1) = Some (7, length ?b + 1 + 1)"
    by (metis length_Cons list.size(3) lessI One_nat_def)
  from e n 1 2 3 show ?thesis by simp
qed


section \<open>The buffer is sorted whenever it is read\<close>

lemma desc_iff: "desc b \<longleftrightarrow> sorted (rev (map score_of b))"
  by (simp add: sorted_wrt_rev sorted_wrt_map sorted_map rev_map)

lemma desc_py_sorted: "desc (py_sorted score_of True xs)"
  by (simp add: desc_iff py_sorted_desc)

lemma desc_sort_buffer: "distinct (map fst b) \<Longrightarrow> desc (sort_buffer b)"
  by (simp add: sort_buffer_eq desc_py_sorted)

lemma sort_buffer_id: "distinct (map fst b) \<Longrightarrow> desc b \<Longrightarrow> sort_buffer b = b"
  by (simp add: sort_buffer_eq py_sorted_id_desc desc_iff)

lemma score_mol_desc:
  assumes "distinct (map fst b)" and "score_mol M f mols b = (b', sl, calls)"
  shows "desc b'"
proof -
  from score_mol_closed [OF assms(1), of M f mols] assms(2)
  have b': "b' = sort_buffer (b @ new_entries f (length b) calls)"
    and dd: "distinct (map fst (b @ new_entries f (length b) calls))"
    by auto
  show ?thesis unfolding b' by (rule desc_sort_buffer [OF dd])
qed

lemma score_mol_calls_desc:
  "rank_inv b l \<Longrightarrow> desc b \<Longrightarrow> score_mol_calls M reqs (b, l) = (b', l') \<Longrightarrow> desc b'"
proof (induction reqs arbitrary: b l)
  case Nil
  then show ?case by simp
next
  case (Cons req reqs)
  obtain b1 sl calls where s: "score_mol M (fst req) (snd req) b = (b1, sl, calls)"
    by (metis prod_cases3)
  have i1: "rank_inv b1 (l @ calls)" by (rule rank_inv_step [OF Cons.prems(1) s])
  have d1: "desc b1" by (rule score_mol_desc [OF rank_inv_distinct [OF Cons.prems(1)] s])
  from Cons.prems(3) s have "score_mol_calls M reqs (b1, l @ calls) = (b', l')" by simp
  from Cons.IH [OF i1 d1 this] show ?case .
qed

lemma desc_take_drop:
  assumes "desc b" and "x \<in> set (take n b)" and "y \<in> set b - set (take n b)"
  shows "score_of y \<le> score_of x"
proof -
  have "set b = set (take n b) \<union> set (drop n b)" by (metis append_take_drop_id set_append)
  with assms(3) have y: "y \<in> set (drop n b)" by auto
  from assms(1) have "desc (take n b @ drop n b)" by simp
  with assms(2) y show ?thesis unfolding sorted_wrt_append by blast
qed

lemma save_result_dump:
  assumes "save_result env suffix st = (None, st')"
  shows "\<exists>p. events st' = events st @ [YamlDump p (sort_buffer (mol_buffer st))]
           \<and> mol_buffer st' = sort_buffer (mol_buffer st)"
  using assms by (auto simp: save_result_def Let_def split: if_splits)

lemma log_intermediate_default:
  assumes "log_intermediate env M None None st = (None, st')"
  shows "\<exists>m. events st' = events st @ [WandbLogIntermediate m]
           \<and> np_max (map score_of (temp_top100 (mol_buffer st))) = Inr (i_avg_top1 m)
           \<and> i_avg_top100 m = np_mean env (map score_of (temp_top100 (mol_buffer st)))
           \<and> i_n_oracle m = length (mol_buffer st)"
  using assms by (auto simp: log_intermediate_def split: sum.splits)

text \<open>
  Claim C3. \<open>score_mol\<close> sorts the buffer before it returns, so the buffer that any later
  reader finds (after any sequence of \<open>score_mol\<close> calls on an empty buffer) is in descending
  score order. The first-100 slice of \<open>log_intermediate\<close> then holds the highest scores:
  no item outside the slice scores more than an item inside. \<open>save_result\<close> sorts again,
  which changes nothing, and dumps the items in that order; every level list that
  \<open>log_result\<close> builds its tables from is in descending score order.
\<close>

theorem buffer_sorted_on_read:
  assumes "score_mol_calls MolToSmiles reqs ([], []) = (b, call_log)"
  shows "sorted_wrt (\<lambda>x y. score_of y \<le> score_of x) b
       \<and> sort_buffer b = b
       \<and> length (temp_top100 b) = min 100 (length b)
       \<and> set (temp_top100 b) \<subseteq> set b
       \<and> (\<forall>x \<in> set (temp_top100 b). \<forall>y \<in> set b - set (temp_top100 b). score_of y \<le> score_of x)
       \<and> (\<forall>env M st st'. mol_buffer st = b \<and> log_intermediate env M None None st = (None, st')
             \<longrightarrow> (\<exists>m. events st' = events st @ [WandbLogIntermediate m]
                    \<and> np_max (map score_of (temp_top100 b)) = Inr (i_avg_top1 m)
                    \<and> i_avg_top100 m = np_mean env (map score_of (temp_top100 b))
                    \<and> i_n_oracle m = length b))
       \<and> (\<forall>env suffix st st'. mol_buffer st = b \<and> save_result env suffix st = (None, st')
             \<longrightarrow> (\<exists>p. events st' = events st @ [YamlDump p b]))
       \<and> (\<forall>level \<in> set (results_all_level b).
             sorted_wrt (\<lambda>x y. score_of y \<le> score_of x) level)"
proof -
  have inv: "rank_inv b call_log"
    by (rule score_mol_calls_inv [OF rank_inv_empty assms])
  have d: "distinct (map fst b)" by (rule rank_inv_distinct [OF inv])
  have s: "desc b"
    by (rule score_mol_calls_desc [OF rank_inv_empty _ assms]) simp
  have i: "sort_buffer b = b" by (rule sort_buffer_id [OF d s])
  have l: "length (temp_top100 b) = min 100 (length b)"
    by (simp add: temp_top100_def)
  have m: "set (temp_top100 b) \<subseteq> set b"
    unfolding temp_top100_def by (rule set_take_subset)
  have t: "\<forall>x \<in> set (temp_top100 b). \<forall>y \<in> set b - set (temp_top100 b). score_of y \<le> score_of x"
    unfolding temp_top100_def using desc_take_drop [OF s] by blast
  have li: "\<forall>env M st st'. mol_buffer st = b \<and> log_intermediate env M None None st = (None, st')
             \<longrightarrow> (\<exists>m. events st' = events st @ [WandbLogIntermediate m]
                    \<and> np_max (map score_of (temp_top100 b)) = Inr (i_avg_top1 m)
                    \<and> i_avg_top100 m = np_mean env (map score_of (temp_top100 b))
                    \<and> i_n_oracle m = length b)"
    using log_intermediate_default by blast
  have w: "\<forall>env suffix st st'. mol_buffer st = b \<and> save_result env suffix st = (None, st')
             \<longrightarrow> (\<exists>p. events st' = events st @ [YamlDump p b])"
    using save_result_dump i by metis
  have r: "\<forall>level \<in> set (results_all_level b). desc level"
    by (auto simp: results_all_level_def desc_py_sorted)
  from s i l m t li w r show ?thesis by (intro conjI)
qed

theorem buffer_sorted_on_read_witness:
  "score_mol_calls (\<lambda>m. m)
      [(\<lambda>s. int (length s), [''CC'', ''C'', ''CCCC'']), (\<lambda>s. 3, [''C'', ''N''])] ([], [])
     = ([(''CCCC'', (4, 3)), (''N'', (3, 4)), (''CC'', (2, 1)), (''C'', (1, 2))],
        [''CC'', ''C'', ''CCCC'', ''N''])
   \<and> sorted_wrt (\<lambda>x y. score_of y \<le> score_of x)
        [(''CCCC'', (4::int, 3::nat)), (''N'', (3, 4)), (''CC'', (2, 1)), (''C'', (1, 2))]
   \<and> sort_buffer [(''CCCC'', (4::int, 3::nat)), (''N'', (3, 4)), (''CC'', (2, 1)), (''C'', (1, 2))]
       = [(''CCCC'', (4, 3)), (''N'', (3, 4)), (''CC'', (2, 1)), (''C'', (1, 2))]
   \<and> length (temp_top100 [(''CCCC'', (4::int, 3::nat)), (''N'', (3, 4)), (''CC'', (2, 1)), (''C'', (1, 2))]) = 4
   \<and> fst (log_intermediate example_env (\<lambda>m. m) None None
        (example_state\<lparr>mol_buffer := [(''CCCC'', (4, 3)), (''N'', (3, 4)), (''CC'', (2, 1)), (''C'', (1, 2))]\<rparr>))
       = None
   \<and> save_result example_env None
        (example_state\<lparr>mol_buffer := [(''CCCC'', (4, 3)), (''N'', (3, 4)), (''CC'', (2, 1)), (''C'', (1, 2))]\<rparr>)
       = (None, example_state
           \<lparr>mol_buffer := [(''CCCC'', (4, 3)), (''N'', (3, 4)), (''CC'', (2, 1)), (''C'', (1, 2))],
            events := [YamlDump ''out/results.yaml''
              [(''CCCC'', (4, 3)), (''N'', (3, 4)), (''CC'', (2, 1)), (''C'', (1, 2))]]\<rparr>)"
proof -
  let ?b = "[(''CCCC'', (4::int, 3::nat)), (''N'', (3, 4)), (''CC'', (2, 1)), (''C'', (1, 2))]"
  let ?st = "example_state\<lparr>mol_buffer := ?b\<rparr>"
  have e: "score_mol_calls (\<lambda>m. m)
      [(\<lambda>s. int (length s), [''CC'', ''C'', ''CCCC'']), (\<lambda>s. 3, [''C'', ''N''])] ([], [])
     = (?b, [''CC'', ''C'', ''CCCC'', ''N''])"
    by (simp add: score_mol_def dict_getitem_def sort_buffer_def dict_of_items_def
          py_sorted_def score_of_def Let_def)
  note t = buffer_sorted_on_read [OF e]
  from t have 1: "sorted_wrt (\<lambda>x y. score_of y \<le> score_of x) ?b" by (elim conjE)
  from t have 2: "sort_buffer ?b = ?b" by (elim conjE)
  from t have "length (temp_top100 ?b) = min 100 (length ?b)" by (elim conjE)
  then have 3: "length (temp_top100 ?b) = 4" by simp
  have 4: "fst (log_intermediate example_env (\<lambda>m. m) None None ?st) = None"
    by (simp add: log_intermediate_def temp_top100_def np_max_def)
  have 5: "save_result example_env None ?st
       = (None, example_state\<lparr>mol_buffer := ?b,
            events := [YamlDump ''out/results.yaml'' ?b]\<rparr>)"
    by (simp add: save_result_def Let_def example_env_def example_state_def
          output_file_path_def os_path_join_def sort_buffer_def dict_of_items_def
          py_sorted_def score_of_def)
  from e 1 2 3 4 5 show ?thesis by (intro conjI)
qed


section \<open>\<open>log_result\<close>\<close>


lemma map_err_Inr:
  "map_err f xs = Inr ys \<Longrightarrow> length ys = length xs \<and> (\<forall>j < length xs. f (xs ! j) = Inr (ys ! j))"
proof (induction xs arbitrary: ys)
  case Nil
  then show ?case by simp
next
  case (Cons x xs)
  from Cons.prems obtain y ys' where y: "f x = Inr y" "map_err f xs = Inr ys'" "ys = y # ys'"
    by (auto split: sum.splits)
  from Cons.IH [OF y(2)] y(1,3) show ?case
    by (auto simp: nth_Cons split: nat.splits)
qed

lemma map_err_Inl:
  assumes "x \<in> set xs" and "f x = Inl e"
    and "\<And>y e'. y \<in> set xs \<Longrightarrow> f y = Inl e' \<Longrightarrow> e' = e"
  shows "map_err f xs = Inl e"
  using assms
proof (induction xs)
  case Nil
  then show ?case by simp
next
  case (Cons a xs)
  show ?case
  proof (cases "f a")
    case (Inl e')
    with Cons.prems(3) [of a e'] show ?thesis by simp
  next
    case (Inr y)
    with Cons.prems have "x \<in> set xs" by auto
    from Cons.IH [OF this Cons.prems(2)] Cons.prems(3) have "map_err f xs = Inl e" by auto
    with Inr show ?thesis by simp
  qed
qed

lemma log_result_results_eq: "log_result_results b = take 10000 (py_sorted rank_of False b)"
  by (simp add: log_result_results_def Let_def)

lemma length_log_num_oracles: "length log_num_oracles = 6"
  by (simp add: log_num_oracles_def)

lemma log_num_oracles_le: "i < length log_num_oracles \<Longrightarrow> log_num_oracles ! i \<le> 10000"
  by (auto simp: log_num_oracles_def nth_Cons split: nat.splits)

lemma results_all_level_nth:
  assumes "i < length log_num_oracles"
  shows "results_all_level b ! i
       = py_sorted score_of True (take (log_num_oracles ! i) (py_sorted rank_of False b))"
proof -
  have "min (log_num_oracles ! i) 10000 = log_num_oracles ! i"
    using log_num_oracles_le [OF assms] by simp
  then show ?thesis
    using assms by (simp add: results_all_level_def log_result_results_eq)
qed

lemma last_results_all_level:
  "last (results_all_level b) = py_sorted score_of True (take 10000 (py_sorted rank_of False b))"
  by (simp add: results_all_level_def log_result_results_eq log_num_oracles_def)

lemma take_by_rank:
  assumes "map rank_of R = [1 ..< Suc (length R)]"
  shows "set (take m R) = {e \<in> set R. rank_of e \<le> m}"
proof -
  have rk: "rank_of (R ! j) = Suc j" if "j < length R" for j
  proof -
    from that have "rank_of (R ! j) = map rank_of R ! j" by simp
    also have "\<dots> = Suc j" unfolding assms using that by (simp del: upt_Suc)
    finally show ?thesis .
  qed
  show ?thesis
  proof (intro set_eqI iffI)
    fix e assume "e \<in> set (take m R)"
    then obtain j where j: "j < length (take m R)" "take m R ! j = e"
      by (auto simp: in_set_conv_nth)
    then have "j < length R" "j < m" "R ! j = e" by auto
    with rk [of j] show "e \<in> {e \<in> set R. rank_of e \<le> m}" by auto
  next
    fix e assume "e \<in> {e \<in> set R. rank_of e \<le> m}"
    then obtain j where j: "j < length R" "R ! j = e" "rank_of e \<le> m"
      by (auto simp: in_set_conv_nth)
    with rk [of j] have "j < m" by simp
    with j have "j < length (take m R)" "take m R ! j = e" by auto
    then show "e \<in> set (take m R)" by (metis nth_mem)
  qed
qed

lemma top100_table_Inr:
  assumes "top100_table levels = Inr data"
  shows "length data = 100 \<and> 100 \<le> length (last levels)
       \<and> (\<forall>j < 100. data ! j = (j + 1, score_of (last levels ! j), rank_of (last levels ! j),
                                  fst (last levels ! j)))"
proof -
  from map_err_Inr [OF assms [unfolded top100_table_def]]
  have l: "length data = 100"
    and r: "\<And>j. j < 100 \<Longrightarrow> top100_row (last levels) j = Inr (data ! j)"
    by (auto simp del: upt_Suc)
  have row: "data ! j = (j + 1, score_of (last levels ! j), rank_of (last levels ! j), fst (last levels ! j))
           \<and> j < length (last levels)" if "j < 100" for j
    using r [OF that] by (auto simp: top100_row_def py_index_def split: if_splits)
  from row [of 99] have "100 \<le> length (last levels)" by simp
  with l row show ?thesis by blast
qed

lemma batch_metrics_Inr:
  assumes "batch_metrics env levels = Inr data2" and "length levels = length log_num_oracles"
  shows "map fst data2 = log_num_oracles
       \<and> (\<forall>k < length log_num_oracles. analyze_results env (levels ! k) = Inr (snd (data2 ! k)))"
proof -
  let ?f = "\<lambda>(n_o, r). case analyze_results env r of Inl e \<Rightarrow> Inl e | Inr m \<Rightarrow> Inr (n_o, m)"
  from map_err_Inr [OF assms(1) [unfolded batch_metrics_def]] assms(2)
  have l: "length data2 = length log_num_oracles"
    and r: "\<And>k. k < length log_num_oracles \<Longrightarrow> ?f (zip log_num_oracles levels ! k) = Inr (data2 ! k)"
    by auto
  have e: "analyze_results env (levels ! k) = Inr (snd (data2 ! k)) \<and> fst (data2 ! k) = log_num_oracles ! k"
    if "k < length log_num_oracles" for k
    using r [OF that] that assms(2) by (auto split: sum.splits dest: sym)
  have "map fst data2 = log_num_oracles"
    by (rule nth_equalityI) (simp_all add: l e)
  with e show ?thesis by blast
qed

lemma log_result_None:
  assumes "log_result env st = (None, st')"
  shows "\<exists>data data2. events st' = events st @ [WandbLogTop100 data, WandbLogBatchMetrics data2]
       \<and> top100_table (results_all_level (mol_buffer st)) = Inr data
       \<and> batch_metrics env (results_all_level (mol_buffer st)) = Inr data2"
  using assms by (auto simp: log_result_def Let_def split: sum.splits)

lemma map_err_all_Inr:
  "(\<And>x. x \<in> set xs \<Longrightarrow> \<exists>y. f x = Inr y) \<Longrightarrow> \<exists>ys. map_err f xs = Inr ys"
proof (induction xs)
  case Nil
  then show ?case by simp
next
  case (Cons a xs)
  from Cons.prems [of a] obtain y where y: "f a = Inr y" by auto
  from Cons.IH Cons.prems obtain ys where "map_err f xs = Inr ys" by auto
  with y show ?case by simp
qed

lemma np_max_Inr: "xs \<noteq> [] \<Longrightarrow> \<exists>m. np_max xs = Inr m"
  by (cases xs) (simp_all add: np_max_def)

lemma analyze_results_succeeds:
  assumes d: "distinct (map fst r)" and ne: "r \<noteq> []" and f: "filter_ok env"
  shows "\<exists>m. analyze_results env r = Inr m"
proof -
  let ?res = "take 100 r"
  let ?items = "map (\<lambda>item. (fst item, score_of item)) ?res"
  let ?smis = "map fst ?res"
  let ?pass = "mol_filter env ?smis"
  from ne have rne: "?res \<noteq> []" by (cases r) simp_all
  have "map fst ?items = take 100 (map fst r)" by (simp add: take_map comp_def)
  with d have di: "distinct (map fst ?items)" by (simp add: distinct_take)
  have dict: "dict_of_items ?items = ?items" by (rule dict_of_items_distinct [OF di])
  from rne have sne: "?smis \<noteq> []" by simp
  from f sne have p: "?pass \<noteq> []" "set ?pass \<subseteq> set ?smis"
    unfolding filter_ok_def by blast+
  obtain top1 where t: "np_max (map score_of ?res) = Inr top1"
    using np_max_Inr [of "map score_of ?res"] rne by auto
  have "\<exists>y. dict_getitem ?items s = Inr y" if "s \<in> set ?pass" for s
  proof -
    from that p(2) have "s \<in> fst ` set ?items" by (auto simp: image_iff)
    then have "map_of ?items s \<noteq> None" by (simp add: map_of_eq_None_iff)
    then show ?thesis by (auto simp: dict_getitem_def)
  qed
  from map_err_all_Inr [of ?pass "dict_getitem ?items", OF this]
  obtain ps where ps: "map_err (dict_getitem ?items) ?pass = Inr ps" by auto
  from map_err_Inr [OF ps] p(1) have "ps \<noteq> []" by auto
  then obtain tp where tp: "np_max ps = Inr tp" using np_max_Inr by blast
  show ?thesis
    by (simp add: analyze_results_def Let_def dict t ps tp)
qed

lemma level_props:
  assumes d: "distinct (map fst b)" and l: "100 \<le> length b" and lv: "level \<in> set (results_all_level b)"
  shows "distinct (map fst level) \<and> 100 \<le> length level"
proof -
  let ?R = "py_sorted rank_of False b"
  from lv obtain n where n: "n \<in> set log_num_oracles"
    and level: "level = py_sorted score_of True (take n (take 10000 ?R))"
    by (auto simp: results_all_level_def log_result_results_eq)
  have dR: "distinct (map fst ?R)" by (rule distinct_keys_mset [OF mset_py_sorted d])
  have "map fst (take n (take 10000 ?R)) = take n (take 10000 (map fst ?R))"
    by (simp add: take_map)
  with dR have "distinct (map fst (take n (take 10000 ?R)))" by (simp add: distinct_take)
  then have 1: "distinct (map fst level)"
    unfolding level by (rule distinct_keys_mset [OF mset_py_sorted])
  from n have "100 \<le> n" by (auto simp: log_num_oracles_def)
  with l have 2: "100 \<le> length level"
    by (simp add: level length_py_sorted)
  from 1 2 show ?thesis ..
qed

lemma log_result_succeeds:
  assumes d: "distinct (map fst (mol_buffer st))" and l: "100 \<le> length (mol_buffer st)"
    and f: "filter_ok env"
  shows "\<exists>data data2. log_result env st
           = (None, st\<lparr>events := events st @ [WandbLogTop100 data, WandbLogBatchMetrics data2]\<rparr>)"
proof -
  let ?levels = "results_all_level (mol_buffer st)"
  have "last ?levels \<in> set ?levels"
    by (rule last_in_set) (simp add: results_all_level_def log_num_oracles_def)
  from level_props [OF d l this] have ll: "100 \<le> length (last ?levels)" by simp
  have "\<exists>y. top100_row (last ?levels) x = Inr y" if "x \<in> set [0 ..< 100]" for x
    using that ll by (simp add: top100_row_def py_index_def)
  from map_err_all_Inr [of "[0 ..< 100]" "top100_row (last ?levels)", OF this]
  obtain data where data: "top100_table ?levels = Inr data"
    by (auto simp: top100_table_def)
  let ?g = "\<lambda>(n_o, r). case analyze_results env r of Inl e \<Rightarrow> Inl e | Inr m \<Rightarrow> Inr (n_o, m)"
  have "\<exists>y. ?g x = Inr y" if "x \<in> set (zip log_num_oracles ?levels)" for x
  proof -
    obtain n r where x: "x = (n, r)" by (cases x)
    with that have "r \<in> set ?levels" by (auto dest: set_zip_rightD)
    from level_props [OF d l this] have "distinct (map fst r)" "r \<noteq> []" by auto
    from analyze_results_succeeds [OF this f] x show ?thesis by auto
  qed
  from map_err_all_Inr [of "zip log_num_oracles ?levels" ?g, OF this]
  obtain data2 where data2: "batch_metrics env ?levels = Inr data2"
    unfolding batch_metrics_def by blast
  show ?thesis
    by (intro exI [of _ data] exI [of _ data2]) (simp add: log_result_def Let_def data data2)
qed

lemma distinct_alkanes: "distinct (alkanes n)"
proof -
  have "inj_on (\<lambda>i. replicate (Suc i) CHR ''C'') (set [0 ..< n])"
    by (rule inj_onI) (metis length_replicate nat.inject)
  then show ?thesis by (simp add: alkanes_def distinct_map)
qed

lemma length_alkanes: "length (alkanes n) = n"
  by (simp add: alkanes_def)

lemma filter_ok_example: "filter_ok example_env"
  by (simp add: filter_ok_def example_env_def)

lemma score_alkanes:
  assumes "score_mol_calls (\<lambda>m. m) [(f, alkanes n)] ([], []) = (b, call_log)"
  shows "distinct (map fst b) \<and> length b = n"
proof -
  have inv: "rank_inv b call_log"
    by (rule score_mol_calls_inv [OF rank_inv_empty assms])
  from rank_inv_sorted [OF inv] have l: "length call_log = length b" by blast
  from score_mol_closed [of "[]" "\<lambda>m. m" f "alkanes n"] assms
  have "distinct call_log" "set call_log = set (alkanes n)"
    by (auto split: prod.splits)
  then have "length call_log = length (alkanes n)"
    using distinct_alkanes [of n] by (metis distinct_card)
  with l rank_inv_distinct [OF inv] show ?thesis by (simp add: length_alkanes)
qed


text \<open>
  Claim C4. \<open>log_result\<close> puts the items in ascending rank order and keeps the first 10000;
  the list for the budget \<open>n\<close> is the first \<open>n\<close> of them, sorted again by descending score.
  On a buffer that \<open>score_mol\<close> built, that list holds exactly the items with rank at most
  \<open>n\<close>. When \<open>log_result\<close> returns, it has logged two tables: the rows of the first are
  the first 100 items of the last list, and row \<open>k\<close> of the second is the budget
  \<open>log_num_oracles ! k\<close> with \<open>_analyze_results\<close> of list \<open>k\<close>.
\<close>

theorem log_result_levels:
  assumes "score_mol_calls MolToSmiles reqs ([], []) = (b, call_log)"
  shows "log_result_results b = take 10000 (py_sorted rank_of False b)
       \<and> map rank_of (py_sorted rank_of False b) = [1 ..< Suc (length b)]
       \<and> length (results_all_level b) = length log_num_oracles
       \<and> (\<forall>i < length log_num_oracles.
             results_all_level b ! i
               = py_sorted score_of True (take (log_num_oracles ! i) (log_result_results b))
           \<and> set (results_all_level b ! i) = {e \<in> set b. rank_of e \<le> log_num_oracles ! i}
           \<and> sorted_wrt (\<lambda>x y. score_of y \<le> score_of x) (results_all_level b ! i))
       \<and> (\<forall>env st st'. mol_buffer st = b \<and> log_result env st = (None, st') \<longrightarrow>
             (\<exists>data data2.
                events st' = events st @ [WandbLogTop100 data, WandbLogBatchMetrics data2]
              \<and> length data = 100
              \<and> (\<forall>j < 100. data ! j =
                     (j + 1, score_of (last (results_all_level b) ! j),
                      rank_of (last (results_all_level b) ! j), fst (last (results_all_level b) ! j)))
              \<and> map fst data2 = log_num_oracles
              \<and> (\<forall>k < length log_num_oracles.
                     analyze_results env (results_all_level b ! k) = Inr (snd (data2 ! k)))))"
proof -
  let ?R = "py_sorted rank_of False b"
  have inv: "rank_inv b call_log"
    by (rule score_mol_calls_inv [OF rank_inv_empty assms])
  from rank_inv_sorted [OF inv] have r: "map rank_of ?R = [1 ..< Suc (length b)]" by blast
  then have r': "map rank_of ?R = [1 ..< Suc (length ?R)]" by (simp only: length_py_sorted)
  have 1: "log_result_results b = take 10000 ?R" by (rule log_result_results_eq)
  have 3: "length (results_all_level b) = length log_num_oracles"
    by (simp add: results_all_level_def)
  have 4: "results_all_level b ! i
               = py_sorted score_of True (take (log_num_oracles ! i) (log_result_results b))
           \<and> set (results_all_level b ! i) = {e \<in> set b. rank_of e \<le> log_num_oracles ! i}
           \<and> sorted_wrt (\<lambda>x y. score_of y \<le> score_of x) (results_all_level b ! i)"
    if i: "i < length log_num_oracles" for i
  proof -
    have a: "results_all_level b ! i
               = py_sorted score_of True (take (log_num_oracles ! i) (log_result_results b))"
      using i by (simp add: results_all_level_def)
    have "set (results_all_level b ! i) = set (take (log_num_oracles ! i) ?R)"
      by (simp only: results_all_level_nth [OF i] set_py_sorted)
    also have "\<dots> = {e \<in> set ?R. rank_of e \<le> log_num_oracles ! i}"
      by (rule take_by_rank [OF r'])
    finally have c: "set (results_all_level b ! i) = {e \<in> set b. rank_of e \<le> log_num_oracles ! i}"
      by (simp only: set_py_sorted)
    have d: "sorted_wrt (\<lambda>x y. score_of y \<le> score_of x) (results_all_level b ! i)"
      unfolding a by (rule desc_py_sorted)
    from a c d show ?thesis by blast
  qed
  have 5: "\<exists>data data2.
                events st' = events st @ [WandbLogTop100 data, WandbLogBatchMetrics data2]
              \<and> length data = 100
              \<and> (\<forall>j < 100. data ! j =
                     (j + 1, score_of (last (results_all_level b) ! j),
                      rank_of (last (results_all_level b) ! j), fst (last (results_all_level b) ! j)))
              \<and> map fst data2 = log_num_oracles
              \<and> (\<forall>k < length log_num_oracles.
                     analyze_results env (results_all_level b ! k) = Inr (snd (data2 ! k)))"
    if st: "mol_buffer st = b" and lr: "log_result env st = (None, st')" for env st st'
  proof -
    from log_result_None [OF lr] st obtain data data2 where
      e: "events st' = events st @ [WandbLogTop100 data, WandbLogBatchMetrics data2]"
      and t: "top100_table (results_all_level b) = Inr data"
      and m: "batch_metrics env (results_all_level b) = Inr data2" by auto
    from top100_table_Inr [OF t] batch_metrics_Inr [OF m 3] e show ?thesis by blast
  qed
  from 1 r 3 4 5 show ?thesis by blast
qed



theorem log_result_levels_witness:
  "\<exists>b call_log st'.
      score_mol_calls (\<lambda>m. m) [(\<lambda>s. 0, alkanes 100)] ([], []) = (b, call_log)
    \<and> 0 < length log_num_oracles
    \<and> length b = 100
    \<and> set (results_all_level b ! 0) = {e \<in> set b. rank_of e \<le> 100}
    \<and> log_result example_env \<lparr>model_name = ''m'', output_dir = ''out'', mol_buffer = b, events = []\<rparr>
        = (None, st')
    \<and> (\<exists>data data2. events st' = [WandbLogTop100 data, WandbLogBatchMetrics data2]
          \<and> length data = 100 \<and> map fst data2 = log_num_oracles)"
proof -
  obtain b call_log where
    e: "score_mol_calls (\<lambda>m. m) [(\<lambda>s. 0::int, alkanes 100)] ([], []) = (b, call_log)"
    by (cases "score_mol_calls (\<lambda>m. m) [(\<lambda>s. 0::int, alkanes 100)] ([], [])")
  let ?st = "\<lparr>model_name = ''m'', output_dir = ''out'', mol_buffer = b, events = []\<rparr>"
  have mb: "mol_buffer ?st = b" and ev: "events ?st = []" by simp_all
  from score_alkanes [OF e] have db: "distinct (map fst b)" and l': "length b = 100" by blast+
  from db have d: "distinct (map fst (mol_buffer ?st))" by (simp only: mb)
  from l' have l: "100 \<le> length (mol_buffer ?st)" by (simp only: mb)
  from log_result_succeeds [OF d l filter_ok_example] obtain st' where
    s: "log_result example_env ?st = (None, st')" by blast
  have i: "0 < length log_num_oracles" by (simp add: log_num_oracles_def)
  have n0: "log_num_oracles ! 0 = 100" by (simp add: log_num_oracles_def)
  note t = log_result_levels [OF e]
  from t have lv: "\<forall>i < length log_num_oracles.
             results_all_level b ! i
               = py_sorted score_of True (take (log_num_oracles ! i) (log_result_results b))
           \<and> set (results_all_level b ! i) = {e \<in> set b. rank_of e \<le> log_num_oracles ! i}
           \<and> sorted_wrt (\<lambda>x y. score_of y \<le> score_of x) (results_all_level b ! i)"
    by (elim conjE)
  from lv [rule_format, OF i]
  have "set (results_all_level b ! 0) = {e \<in> set b. rank_of e \<le> log_num_oracles ! 0}"
    by (elim conjE)
  then have 1: "set (results_all_level b ! 0) = {e \<in> set b. rank_of e \<le> 100}"
    by (simp only: n0)
  from t have tb: "\<forall>env st st'. mol_buffer st = b \<and> log_result env st = (None, st') \<longrightarrow>
             (\<exists>data data2.
                events st' = events st @ [WandbLogTop100 data, WandbLogBatchMetrics data2]
              \<and> length data = 100
              \<and> (\<forall>j < 100. data ! j =
                     (j + 1, score_of (last (results_all_level b) ! j),
                      rank_of (last (results_all_level b) ! j), fst (last (results_all_level b) ! j)))
              \<and> map fst data2 = log_num_oracles
              \<and> (\<forall>k < length log_num_oracles.
                     analyze_results env (results_all_level b ! k) = Inr (snd (data2 ! k))))"
    by (elim conjE)
  from tb [rule_format, OF conjI [OF mb s]] obtain data data2 where
    dd: "events st' = events ?st @ [WandbLogTop100 data, WandbLogBatchMetrics data2]"
      "length data = 100" "map fst data2 = log_num_oracles"
    by blast
  from dd(1) have ev': "events st' = [WandbLogTop100 data, WandbLogBatchMetrics data2]"
    by (simp only: ev append_Nil)
  from ev' dd(2,3) have 2: "\<exists>data data2. events st' = [WandbLogTop100 data, WandbLogBatchMetrics data2]
          \<and> length data = 100 \<and> map fst data2 = log_num_oracles"
    by blast
  from e i l' 1 s 2 show ?thesis by blast
qed

text \<open>
  Claim C10. With fewer than 100 items in the buffer \<open>log_result\<close> raises \<open>IndexError\<close>
  before it logs anything. \<open>_analyze_results\<close> divides the number of passing molecules by
  the constant 100, however many results it was given, and raises \<open>ValueError\<close> (the
  maximum of an empty list) when no molecule passes the filter.
\<close>

theorem log_result_needs_100:
  "(length (mol_buffer st) < 100 \<longrightarrow> log_result env st = (Some IndexError, st))
   \<and> (\<forall>m. analyze_results env results = Inr m \<longrightarrow>
          pass_frac m = of_nat (length (mol_filter env (map fst (take 100 results)))) / 100)
   \<and> (mol_filter env (map fst (take 100 results)) = [] \<longrightarrow>
          analyze_results env results = Inl ValueError)"
proof (intro conjI impI allI)
  assume less: "length (mol_buffer st) < 100"
  let ?r = "last (results_all_level (mol_buffer st))"
  have len: "length ?r = length (mol_buffer st)"
    using less by (simp add: last_results_all_level length_py_sorted)
  have bad: "top100_row ?r (length ?r) = Inl IndexError"
    by (simp add: top100_row_def py_index_def)
  have only: "e' = IndexError" if "top100_row ?r y = Inl e'" for y e'
    using that by (auto simp: top100_row_def py_index_def split: if_splits)
  have mem: "length ?r \<in> set [0 ..< 100]" using less len by simp
  have "map_err (top100_row ?r) [0 ..< 100] = Inl IndexError"
    by (rule map_err_Inl [where x = "length ?r"]) (use mem bad only in blast)+
  then have "top100_table (results_all_level (mol_buffer st)) = Inl IndexError"
    by (simp add: top100_table_def)
  then show "log_result env st = (Some IndexError, st)"
    by (simp add: log_result_def)
next
  fix m assume "analyze_results env results = Inr m"
  then show "pass_frac m = of_nat (length (mol_filter env (map fst (take 100 results)))) / 100"
    by (auto simp: analyze_results_def Let_def split: sum.splits)
next
  assume "mol_filter env (map fst (take 100 results)) = []"
  then show "analyze_results env results = Inl ValueError"
    by (cases results) (auto simp: analyze_results_def Let_def np_max_def split: sum.splits list.splits)
qed


theorem log_result_needs_100_witness:
  "log_result example_env
     \<lparr>model_name = ''m'', output_dir = ''out'',
      mol_buffer = [(''CC'', (2, 1)), (''C'', (1, 2))], events = []\<rparr>
   = (Some IndexError,
      \<lparr>model_name = ''m'', output_dir = ''out'',
       mol_buffer = [(''CC'', (2, 1)), (''C'', (1, 2))], events = []\<rparr>)
   \<and> (\<exists>m. analyze_results example_env [(''CC'', (2, 1))] = Inr m \<and> pass_frac m = 1 / 100)
   \<and> analyze_results (example_env\<lparr>mol_filter := (\<lambda>smis. [])\<rparr>) [(''CC'', (2, 1))] = Inl ValueError"
proof -
  let ?st = "\<lparr>model_name = ''m'', output_dir = ''out'',
      mol_buffer = [(''CC'', (2::int, 1::nat)), (''C'', (1, 2))], events = []\<rparr>"
  let ?r = "[(''CC'', (2::int, 1::nat))]"
  have a: "analyze_results example_env ?r
      = Inr \<lparr>avg_top100 = 2, avg_top10 = 2, avg_top1 = 2, diversity = 0, avg_sa = 2,
             pass_frac = 1 / 100, top1_pass = 2\<rparr>"
    by (simp add: analyze_results_def example_env_def Let_def dict_of_items_def np_max_def
          dict_getitem_def score_of_def)
  from log_result_needs_100 [of ?st example_env ?r]
  have 1: "log_result example_env ?st = (Some IndexError, ?st)" by simp
  from log_result_needs_100 [of ?st example_env ?r] a
  have 2: "\<exists>m. analyze_results example_env ?r = Inr m \<and> pass_frac m = 1 / 100"
    by (simp add: example_env_def)
  from log_result_needs_100 [of ?st "example_env\<lparr>mol_filter := (\<lambda>smis. [])\<rparr>" ?r]
  have 3: "analyze_results (example_env\<lparr>mol_filter := (\<lambda>smis. [])\<rparr>) ?r = Inl ValueError"
    by simp
  from 1 2 3 show ?thesis by blast
qed


section \<open>\<open>save_result\<close>\<close>


lemma os_path_join_plain:
  assumes "a \<noteq> []" and "last a \<noteq> CHR ''/''" and "b \<noteq> []" and "hd b \<noteq> CHR ''/''"
  shows "os_path_join a b = a @ ''/'' @ b"
  using assms by (simp add: os_path_join_def)

text \<open>
  Claim C6. When the file can be opened, \<open>save_result\<close> sorts the buffer and dumps all of
  it, in that order, to \<open>os.path.join(output_dir, 'results.yaml')\<close> without a suffix and to
  \<open>os.path.join(output_dir, 'results_' + suffix + '.yaml')\<close> with one; for a directory name
  that does not end in a slash these are \<open>output_dir/results.yaml\<close> and
  \<open>output_dir/results_<suffix>.yaml\<close>. The buffer keeps its items and its key-to-value map.
\<close>

theorem save_result_writes:
  assumes "distinct (map fst (mol_buffer st))"
    and "writable env (output_file_path (output_dir st) suffix)"
  shows "save_result env suffix st
           = (None, st\<lparr>mol_buffer := sort_buffer (mol_buffer st),
                        events := events st @
                          [YamlDump (output_file_path (output_dir st) suffix)
                             (sort_buffer (mol_buffer st))]\<rparr>)
       \<and> mset (sort_buffer (mol_buffer st)) = mset (mol_buffer st)
       \<and> map_of (sort_buffer (mol_buffer st)) = map_of (mol_buffer st)
       \<and> sorted_wrt (\<lambda>x y. score_of y \<le> score_of x) (sort_buffer (mol_buffer st))
       \<and> output_file_path (output_dir st) None = os_path_join (output_dir st) ''results.yaml''
       \<and> (\<forall>s. output_file_path (output_dir st) (Some s)
               = os_path_join (output_dir st) (''results_'' @ s @ ''.yaml''))
       \<and> (output_dir st \<noteq> [] \<and> last (output_dir st) \<noteq> CHR ''/'' \<longrightarrow>
            output_file_path (output_dir st) None = output_dir st @ ''/results.yaml''
          \<and> (\<forall>s. output_file_path (output_dir st) (Some s)
                  = output_dir st @ ''/results_'' @ s @ ''.yaml''))"
proof -
  have 1: "save_result env suffix st
           = (None, st\<lparr>mol_buffer := sort_buffer (mol_buffer st),
                        events := events st @
                          [YamlDump (output_file_path (output_dir st) suffix)
                             (sort_buffer (mol_buffer st))]\<rparr>)"
    using assms(2) by (simp add: save_result_def Let_def)
  have 2: "mset (sort_buffer (mol_buffer st)) = mset (mol_buffer st)"
    by (rule mset_sort_buffer [OF assms(1)])
  have 3: "map_of (sort_buffer (mol_buffer st)) = map_of (mol_buffer st)"
    by (rule map_of_sort_buffer [OF assms(1)])
  have 4: "sorted_wrt (\<lambda>x y. score_of y \<le> score_of x) (sort_buffer (mol_buffer st))"
    by (rule desc_sort_buffer [OF assms(1)])
  have 5: "output_file_path (output_dir st) None = os_path_join (output_dir st) ''results.yaml''"
    by (simp add: output_file_path_def)
  have 6: "\<forall>s. output_file_path (output_dir st) (Some s)
               = os_path_join (output_dir st) (''results_'' @ s @ ''.yaml'')"
    by (simp add: output_file_path_def)
  have 7: "output_dir st \<noteq> [] \<and> last (output_dir st) \<noteq> CHR ''/'' \<longrightarrow>
            output_file_path (output_dir st) None = output_dir st @ ''/results.yaml''
          \<and> (\<forall>s. output_file_path (output_dir st) (Some s)
                  = output_dir st @ ''/results_'' @ s @ ''.yaml'')"
    by (simp add: output_file_path_def os_path_join_def)
  from 1 2 3 4 5 6 7 show ?thesis by (intro conjI)
qed

theorem save_result_writes_witness:
  "distinct (map fst (mol_buffer (example_state\<lparr>mol_buffer := [(''CC'', (1, 1)), (''CO'', (3, 2))]\<rparr>)))
   \<and> writable example_env ''out/results_dog_gen_qed_2.yaml''
   \<and> save_result example_env (Some ''dog_gen_qed_2'')
        (example_state\<lparr>mol_buffer := [(''CC'', (1, 1)), (''CO'', (3, 2))]\<rparr>)
     = (None, example_state
          \<lparr>mol_buffer := [(''CO'', (3, 2)), (''CC'', (1, 1))],
           events := [YamlDump ''out/results_dog_gen_qed_2.yaml'' [(''CO'', (3, 2)), (''CC'', (1, 1))]]\<rparr>)
   \<and> output_file_path ''out'' None = ''out/results.yaml''"
proof -
  let ?st = "example_state\<lparr>mol_buffer := [(''CC'', (1, 1)), (''CO'', (3, 2))]\<rparr>"
  have d: "distinct (map fst (mol_buffer ?st))" by simp
  have od: "output_dir ?st = ''out''" by (simp add: example_state_def)
  have p: "output_file_path (output_dir ?st) (Some ''dog_gen_qed_2'') = ''out/results_dog_gen_qed_2.yaml''"
    by (simp add: example_state_def output_file_path_def os_path_join_def)
  have w: "writable example_env (output_file_path (output_dir ?st) (Some ''dog_gen_qed_2''))"
    by (simp add: example_env_def)
  have sb: "sort_buffer (mol_buffer ?st) = [(''CO'', (3, 2)), (''CC'', (1, 1))]"
    by (simp add: sort_buffer_def dict_of_items_def py_sorted_def score_of_def)
  note t = save_result_writes [OF d w]
  from t have 1: "save_result example_env (Some ''dog_gen_qed_2'') ?st
           = (None, ?st\<lparr>mol_buffer := sort_buffer (mol_buffer ?st),
                        events := events ?st @
                          [YamlDump (output_file_path (output_dir ?st) (Some ''dog_gen_qed_2''))
                             (sort_buffer (mol_buffer ?st))]\<rparr>)"
    by (elim conjE)
  from t have 2: "output_dir ?st \<noteq> [] \<and> last (output_dir ?st) \<noteq> CHR ''/'' \<longrightarrow>
            output_file_path (output_dir ?st) None = output_dir ?st @ ''/results.yaml''
          \<and> (\<forall>s. output_file_path (output_dir ?st) (Some s)
                  = output_dir ?st @ ''/results_'' @ s @ ''.yaml'')"
    by (elim conjE)
  from 2 have 3: "output_file_path ''out'' None = ''out/results.yaml''"
    by (simp add: example_state_def)
  have 4: "writable example_env ''out/results_dog_gen_qed_2.yaml''" by (simp add: example_env_def)
  from 1 have 5: "save_result example_env (Some ''dog_gen_qed_2'') ?st
     = (None, example_state
          \<lparr>mol_buffer := [(''CO'', (3, 2)), (''CC'', (1, 1))],
           events := [YamlDump ''out/results_dog_gen_qed_2.yaml'' [(''CO'', (3, 2)), (''CC'', (1, 1))]]\<rparr>)"
    unfolding sb p by (simp add: example_state_def)
  from d 4 5 3 show ?thesis by (intro conjI)
qed


section \<open>\<open>optimize\<close> and \<open>production\<close>\<close>


lemma seeds_of_append: "seeds_of (xs @ ys) = seeds_of xs @ seeds_of ys"
  by (induction xs rule: seeds_of.induct) simp_all

lemma optimize_None:
  assumes "optimize env opt oracle config seed st = (None, st')"
  shows "mol_buffer st' = []
       \<and> (\<exists>b data data2 p.
             opt oracle config (mol_buffer st) = (None, b)
           \<and> events st' = events st @
               [WandbInit (model_name st @ ''_'' @ oracle_name oracle), NpRandomSeed seed,
                WandbLogTop100 data, WandbLogBatchMetrics data2, YamlDump p (sort_buffer b),
                RunFinish])"
proof -
  let ?st1 = "st\<lparr>events := events st @ [WandbInit (model_name st @ ''_'' @ oracle_name oracle)]\<rparr>"
  let ?st2 = "?st1\<lparr>events := events ?st1 @ [NpRandomSeed seed]\<rparr>"
  from assms have ok: "\<not> (seed < 0 \<or> 2 ^ 32 \<le> seed)"
    by (auto simp: optimize_def Let_def split: if_splits)
  obtain r b where o: "opt oracle config (mol_buffer st) = (r, b)" by (cases "opt oracle config (mol_buffer st)")
  from assms ok o have r: "r = None"
    by (cases r) (auto simp: optimize_def Let_def)
  let ?st2b = "?st2\<lparr>mol_buffer := b\<rparr>"
  obtain r3 st3 where l: "log_result env ?st2b = (r3, st3)" by (cases "log_result env ?st2b")
  from assms ok o r l have r3: "r3 = None"
    by (cases r3) (auto simp: optimize_def Let_def)
  let ?sfx = "Some (model_name st3 @ ''_'' @ oracle_name oracle @ ''_'' @ str_int seed)"
  obtain r4 st4 where s: "save_result env ?sfx st3 = (r4, st4)" by (cases "save_result env ?sfx st3")
  from assms ok o r l r3 s have r4: "r4 = None"
    by (cases r4) (auto simp: optimize_def Let_def)
  from assms ok o r l r3 s r4
  have st': "st' = st4\<lparr>mol_buffer := [], events := events st4 @ [RunFinish]\<rparr>"
    by (auto simp: optimize_def Let_def)
  from log_result_None [OF l [unfolded r3]] obtain data data2 where
    e3: "events st3 = events ?st2b @ [WandbLogTop100 data, WandbLogBatchMetrics data2]" by blast
  from l [unfolded r3] have b3: "mol_buffer st3 = b"
    by (auto simp: log_result_def Let_def split: sum.splits)
  from save_result_dump [OF s [unfolded r4]] obtain p where
    e4: "events st4 = events st3 @ [YamlDump p (sort_buffer (mol_buffer st3))]" by blast
  have "events st' = events st @
               [WandbInit (model_name st @ ''_'' @ oracle_name oracle), NpRandomSeed seed,
                WandbLogTop100 data, WandbLogBatchMetrics data2, YamlDump p (sort_buffer b),
                RunFinish]"
    by (simp add: st' e4 e3 b3)
  moreover have "mol_buffer st' = []" by (simp add: st')
  ultimately show ?thesis using o r by blast
qed

lemma production_loop_seeds:
  "production_loop env opt oracle config seeds st = (None, st')
     \<Longrightarrow> seeds_of (events st') = seeds_of (events st) @ seeds
       \<and> (seeds \<noteq> [] \<longrightarrow> mol_buffer st' = [])"
proof (induction seeds arbitrary: st)
  case Nil
  then show ?case by simp
next
  case (Cons seed seeds)
  obtain r st1 where o: "optimize env opt oracle config seed st = (r, st1)"
    by (cases "optimize env opt oracle config seed st")
  from Cons.prems o have r: "r = None" by (cases r) auto
  from Cons.prems o r
  have l: "production_loop env opt oracle config seeds (st1\<lparr>mol_buffer := []\<rparr>) = (None, st')"
    by simp
  from optimize_None [OF o [unfolded r]]
  have s1: "seeds_of (events st1) = seeds_of (events st) @ [seed]"
    by (auto simp: seeds_of_append)
  from Cons.IH [OF l] s1 show ?case by (cases seeds) (use l in auto)
qed

lemma optimize_empty_start:
  "mol_buffer st = [] \<Longrightarrow>
     optimize env (\<lambda>oracle config b. opt oracle config []) oracle config seed st
       = optimize env opt oracle config seed st"
  by (simp add: optimize_def Let_def)

lemma production_loop_empty_start:
  "mol_buffer st = [] \<Longrightarrow>
     production_loop env (\<lambda>oracle config b. opt oracle config []) oracle config seeds st
       = production_loop env opt oracle config seeds st"
proof (induction seeds arbitrary: st)
  case Nil
  show ?case by simp
next
  case (Cons seed seeds)
  have "production_loop env (\<lambda>oracle config b. opt oracle config []) oracle config seeds
          (s\<lparr>mol_buffer := []\<rparr>)
      = production_loop env opt oracle config seeds (s\<lparr>mol_buffer := []\<rparr>)" for s :: "'a state"
    by (rule Cons.IH) simp
  then show ?case
    by (simp add: optimize_empty_start [OF Cons.prems] split: prod.splits option.splits)
qed

lemma py_prefix_seeds:
  "0 \<le> n \<Longrightarrow> py_prefix production_seeds n = take (nat n) production_seeds
     \<and> length (py_prefix production_seeds n) = min (nat n) 25"
  by (simp add: py_prefix_def production_seeds_def)

lemma optimize_succeeds:
  assumes o: "opt oracle config (mol_buffer st) = (None, b)"
    and d: "distinct (map fst b)" and l: "100 \<le> length b"
    and f: "filter_ok env" and w: "\<forall>p. writable env p"
    and s: "0 \<le> seed" "seed < 2 ^ 32"
  shows "\<exists>st'. optimize env opt oracle config seed st = (None, st')"
proof -
  let ?st1 = "st\<lparr>events := events st @ [WandbInit (model_name st @ ''_'' @ oracle_name oracle)]\<rparr>"
  let ?st2 = "?st1\<lparr>events := events ?st1 @ [NpRandomSeed seed]\<rparr>"
  let ?st2b = "?st2\<lparr>mol_buffer := b\<rparr>"
  have d': "distinct (map fst (mol_buffer ?st2b))" and l': "100 \<le> length (mol_buffer ?st2b)"
    using d l by simp_all
  from log_result_succeeds [OF d' l' f] obtain st3 where
    lr: "log_result env ?st2b = (None, st3)" by blast
  let ?sfx = "Some (model_name st3 @ ''_'' @ oracle_name oracle @ ''_'' @ str_int seed)"
  from w have sr: "fst (save_result env ?sfx st3) = None"
    by (simp add: save_result_def Let_def)
  then obtain st4 where sv: "save_result env ?sfx st3 = (None, st4)"
    by (cases "save_result env ?sfx st3") auto
  from s have ok: "\<not> (seed < 0 \<or> 2 ^ 32 \<le> seed)" by simp
  show ?thesis
    using o lr sv ok by (simp add: optimize_def Let_def)
qed

lemma production_loop_succeeds:
  assumes o: "opt oracle config [] = (None, b)"
    and d: "distinct (map fst b)" and l: "100 \<le> length b"
    and f: "filter_ok env" and w: "\<forall>p. writable env p"
  shows "\<forall>s \<in> set seeds. 0 \<le> s \<and> s < 2 ^ 32 \<Longrightarrow> mol_buffer st = [] \<Longrightarrow>
         \<exists>st'. production_loop env opt oracle config seeds st = (None, st')"
proof (induction seeds arbitrary: st)
  case Nil
  show ?case by simp
next
  case (Cons seed seeds)
  from Cons.prems(1) have s: "0 \<le> seed" "seed < 2 ^ 32" by simp_all
  from o Cons.prems(2) have o': "opt oracle config (mol_buffer st) = (None, b)" by simp
  from optimize_succeeds [of opt "oracle" config, OF o' d l f w s] obtain st1 where
    o1: "optimize env opt oracle config seed st = (None, st1)" by blast
  from Cons.prems(1) have rest: "\<forall>s \<in> set seeds. 0 \<le> s \<and> s < 2 ^ 32" by simp
  from Cons.IH [OF rest, of "st1\<lparr>mol_buffer := []\<rparr>"] obtain st' where
    "production_loop env opt oracle config seeds (st1\<lparr>mol_buffer := []\<rparr>) = (None, st')"
    by auto
  with o1 show ?case by simp
qed

lemma score_mol_alkanes:
  assumes "score_mol (\<lambda>m. m) f (alkanes n) [] = (b, sl, calls)"
  shows "distinct (map fst b) \<and> length b = n"
proof -
  from score_mol_closed [of "[]" "\<lambda>m. m" f "alkanes n"] assms
  have b: "b = sort_buffer (new_entries f 0 calls)"
    and dc: "distinct calls" and sc: "set calls = set (alkanes n)"
    and dd: "distinct (map fst (new_entries f 0 calls))"
    by auto
  from dc sc have "length calls = length (alkanes n)"
    using distinct_alkanes [of n] by (metis distinct_card)
  then have lc: "length calls = n" by (simp add: length_alkanes)
  have "length b = length (new_entries f 0 calls)"
    unfolding b using mset_sort_buffer [OF dd] by (rule mset_eq_length)
  also have "\<dots> = n" by (simp add: new_entries_def lc)
  finally have "length b = n" .
  moreover have "distinct (map fst b)" unfolding b by (rule distinct_sort_buffer [OF dd])
  ultimately show ?thesis by simp
qed

lemma example_optimize_good:
  "\<exists>b. example_optimize oracle config [] = (None, b) \<and> distinct (map fst b) \<and> 100 \<le> length b"
proof -
  obtain b sl calls where
    s: "score_mol (\<lambda>m. m) (evaluator oracle) (alkanes 100) [] = (b, sl, calls)"
    by (metis prod_cases3)
  from score_mol_alkanes [OF s] s show ?thesis
    by (simp add: example_optimize_def)
qed

lemma writable_example: "\<forall>p. writable example_env p"
  by (simp add: example_env_def)

lemma seeds_in_range: "\<forall>s \<in> set (py_prefix production_seeds n). 0 \<le> s \<and> s < 2 ^ 32"
proof -
  have "\<forall>s \<in> set production_seeds. 0 \<le> s \<and> s < 2 ^ 32"
    by (simp add: production_seeds_def)
  moreover have "set (py_prefix production_seeds n) \<subseteq> set production_seeds"
    by (auto simp: py_prefix_def dest: in_set_takeD)
  ultimately show ?thesis by blast
qed

lemma example_production_returns:
  "\<exists>st'. production example_env example_optimize example_oracle [] n example_state = (None, st')"
proof -
  from example_optimize_good [of example_oracle "[]"] obtain b where
    b: "example_optimize example_oracle [] [] = (None, b)" "distinct (map fst b)" "100 \<le> length b"
    by blast
  have e: "mol_buffer example_state = []" by (simp add: example_state_def)
  from production_loop_succeeds [of example_optimize example_oracle "[]", OF b filter_ok_example writable_example seeds_in_range e]
  show ?thesis by (simp add: production_def)
qed

text \<open>
  Claim C7, as amended. When \<open>production\<close> returns, \<open>np.random.seed\<close> has been called once
  for each element of \<open>seeds[:num_runs]\<close>, in order: one \<open>optimize\<close> call for each. For
  \<open>0 \<le> num_runs\<close> these are the first \<open>min num_runs 25\<close> primes of the list, so the number
  of runs is \<open>num_runs\<close> only up to 25. Every \<open>optimize\<close> call that returns has logged the
  result tables and dumped the buffer that \<open>_optimize\<close> left, and has emptied the buffer
  after that. On an optimizer whose buffer is empty at the start, it makes no difference
  to \<open>production\<close> whether \<open>_optimize\<close> is given the buffer it finds or the empty one:
  every run starts with an empty score cache.
\<close>

theorem production_runs:
  assumes "production env opt oracle config num_runs st = (None, st')"
  shows "seeds_of (events st') = seeds_of (events st) @ py_prefix production_seeds num_runs
       \<and> (0 \<le> num_runs \<longrightarrow>
            py_prefix production_seeds num_runs = take (nat num_runs) production_seeds
          \<and> length (py_prefix production_seeds num_runs) = min (nat num_runs) 25)
       \<and> (\<forall>seed s s'. optimize env opt oracle config seed s = (None, s') \<longrightarrow>
            mol_buffer s' = []
          \<and> (\<exists>b data data2 p.
                opt oracle config (mol_buffer s) = (None, b)
              \<and> events s' = events s @
                  [WandbInit (model_name s @ ''_'' @ oracle_name oracle), NpRandomSeed seed,
                   WandbLogTop100 data, WandbLogBatchMetrics data2, YamlDump p (sort_buffer b),
                   RunFinish]))
       \<and> (mol_buffer st = [] \<longrightarrow>
            production env (\<lambda>oracle config b. opt oracle config []) oracle config num_runs st
              = (None, st'))"
proof -
  from assms have "production_loop env opt oracle config (py_prefix production_seeds num_runs) st
      = (None, st')" by (simp add: production_def)
  from production_loop_seeds [OF this]
  have 1: "seeds_of (events st') = seeds_of (events st) @ py_prefix production_seeds num_runs"
    by blast
  have 2: "0 \<le> num_runs \<longrightarrow>
            py_prefix production_seeds num_runs = take (nat num_runs) production_seeds
          \<and> length (py_prefix production_seeds num_runs) = min (nat num_runs) 25"
    using py_prefix_seeds by blast
  have 3: "\<forall>seed s s'. optimize env opt oracle config seed s = (None, s') \<longrightarrow>
            mol_buffer s' = []
          \<and> (\<exists>b data data2 p.
                opt oracle config (mol_buffer s) = (None, b)
              \<and> events s' = events s @
                  [WandbInit (model_name s @ ''_'' @ oracle_name oracle), NpRandomSeed seed,
                   WandbLogTop100 data, WandbLogBatchMetrics data2, YamlDump p (sort_buffer b),
                   RunFinish])"
    using optimize_None by blast
  have 4: "mol_buffer st = [] \<longrightarrow>
            production env (\<lambda>oracle config b. opt oracle config []) oracle config num_runs st
              = (None, st')"
    using assms by (simp add: production_def production_loop_empty_start)
  from 1 2 3 4 show ?thesis by (intro conjI)
qed

theorem production_runs_witness:
  "fst (production example_env example_optimize example_oracle [] 3 example_state) = None
   \<and> (0::int) \<le> 3
   \<and> mol_buffer example_state = []
   \<and> seeds_of (events (snd (production example_env example_optimize example_oracle [] 3 example_state)))
       = [2, 3, 5]
   \<and> fst (optimize example_env example_optimize example_oracle [] 2 example_state) = None
   \<and> mol_buffer (snd (optimize example_env example_optimize example_oracle [] 2 example_state)) = []
   \<and> production example_env (\<lambda>oracle config b. example_optimize oracle config [])
         example_oracle [] 3 example_state
       = production example_env example_optimize example_oracle [] 3 example_state"
proof -
  from example_production_returns [of 3] obtain st' where
    p: "production example_env example_optimize example_oracle [] 3 example_state = (None, st')"
    by blast
  have e: "mol_buffer example_state = []" by (simp add: example_state_def)
  from example_optimize_good [of example_oracle "[]"] obtain b where
    b: "example_optimize example_oracle [] (mol_buffer example_state) = (None, b)"
      "distinct (map fst b)" "100 \<le> length b"
    unfolding e by blast
  have "(0::int) \<le> 2" "(2::int) < 2 ^ 32" by simp_all
  from optimize_succeeds [of example_optimize example_oracle "[]", OF b filter_ok_example
      writable_example this]
  obtain s' where
    o: "optimize example_env example_optimize example_oracle [] 2 example_state = (None, s')"
    by blast
  note t = production_runs [OF p]
  from t have "seeds_of (events st') = seeds_of (events example_state) @ py_prefix production_seeds 3"
    by (elim conjE)
  then have 1: "seeds_of (events st') = [2, 3, 5]"
    by (simp add: example_state_def py_prefix_def production_seeds_def)
  from t have "\<forall>seed s s'. optimize example_env example_optimize example_oracle [] seed s = (None, s') \<longrightarrow>
            mol_buffer s' = []
          \<and> (\<exists>b data data2 p.
                example_optimize example_oracle [] (mol_buffer s) = (None, b)
              \<and> events s' = events s @
                  [WandbInit (model_name s @ ''_'' @ oracle_name example_oracle), NpRandomSeed seed,
                   WandbLogTop100 data, WandbLogBatchMetrics data2, YamlDump p (sort_buffer b),
                   RunFinish])"
    by (elim conjE)
  from this [rule_format, OF o] have 2: "mol_buffer s' = []" by (elim conjE)
  from t have "mol_buffer example_state = [] \<longrightarrow>
            production example_env (\<lambda>oracle config b. example_optimize oracle config [])
              example_oracle [] 3 example_state = (None, st')"
    by (elim conjE)
  from this [rule_format, OF e] have 3:
    "production example_env (\<lambda>oracle config b. example_optimize oracle config [])
         example_oracle [] 3 example_state
       = production example_env example_optimize example_oracle [] 3 example_state"
    by (simp only: p)
  have z: "(0::int) \<le> 3" by simp
  from p z e 1 o 2 3 show ?thesis by (simp only: fst_conv snd_conv simp_thms)
qed

text \<open>
  The claim as stated (exactly \<open>num_runs\<close> runs) fails for \<open>num_runs = 26\<close>: the list holds
  25 seeds, and \<open>production\<close> returns after 25 runs.
\<close>

theorem production_runs_counterexample:
  "fst (production example_env example_optimize example_oracle [] 26 example_state) = None
   \<and> seeds_of (events (snd (production example_env example_optimize example_oracle [] 26 example_state)))
       = production_seeds
   \<and> length (seeds_of (events (snd
         (production example_env example_optimize example_oracle [] 26 example_state)))) = 25"
proof -
  from example_production_returns [of 26] obtain st' where
    p: "production example_env example_optimize example_oracle [] 26 example_state = (None, st')"
    by blast
  then have "production_loop example_env example_optimize example_oracle []
               (py_prefix production_seeds 26) example_state = (None, st')"
    by (simp add: production_def)
  from production_loop_seeds [OF this]
  have "seeds_of (events st') = seeds_of (events example_state) @ py_prefix production_seeds 26"
    by blast
  also have "seeds_of (events example_state) = []" by (simp add: example_state_def)
  also have "py_prefix production_seeds 26 = production_seeds"
    by (simp add: py_prefix_def production_seeds_def)
  finally have s: "seeds_of (events st') = production_seeds" by simp
  have "length production_seeds = 25" by (simp add: production_seeds_def)
  with s p show ?thesis by simp
qed



section \<open>\<open>load_smiles_from_file\<close> and \<open>__init__\<close>\<close>


lemma smi_file_unbound:
  assumes "chem_star ''smi_file'' = None"
  shows "load_global (module_globals chem_star) ''smi_file'' = Inl NameError"
proof -
  have "map_of (map (\<lambda>n. (n, PyObj)) optimizer_imports) ''smi_file'' = None"
    by (simp add: optimizer_imports_def)
  with assms have "module_globals chem_star ''smi_file'' = None"
    by (simp add: module_globals_def map_add_def)
  then show ?thesis by (simp add: load_global_def builtin_names_def)
qed

text \<open>
  Claim C9. Unless the star import binds the name \<open>smi_file\<close>, \<open>load_smiles_from_file\<close>
  raises \<open>NameError\<close> for every argument, with no file opened; so does the construction of
  a \<open>BaseOptimizer\<close> whose \<open>args.smi_file\<close> is not \<open>None\<close>.
\<close>

theorem load_smiles_from_file_NameError:
  assumes "chem_star ''smi_file'' = None"
  shows "load_smiles_from_file chem_star fs canonicalize file_name opened = (Inl NameError, opened)
       \<and> (\<forall>a file_name'. arg_smi_file a = Some file_name' \<longrightarrow>
            BaseOptimizer_init chem_star fs canonicalize zinc (Some a) opened
              = (Inl NameError, opened))"
proof -
  have 1: "load_smiles_from_file chem_star fs canonicalize f opened = (Inl NameError, opened)" for f
    by (simp add: load_smiles_from_file_def smi_file_unbound [of chem_star, OF assms])
  have 2: "\<forall>a file_name'. arg_smi_file a = Some file_name' \<longrightarrow>
            BaseOptimizer_init chem_star fs canonicalize zinc (Some a) opened
              = (Inl NameError, opened)"
    by (simp add: BaseOptimizer_init_def Let_def 1)
  from 1 2 show ?thesis by (intro conjI)
qed

theorem load_smiles_from_file_NameError_witness:
  "[''canonicalize'' \<mapsto> PyObj] ''smi_file'' = None
   \<and> load_smiles_from_file [''canonicalize'' \<mapsto> PyObj] [''zinc.smi'' \<mapsto> [''CCO'', ''CC'']]
        (\<lambda>s. s) ''zinc.smi'' [] = (Inl NameError, [])
   \<and> arg_smi_file \<lparr>arg_n_jobs = 1, arg_smi_file = Some ''zinc.smi'', arg_output_dir = ''out''\<rparr>
        = Some ''zinc.smi''
   \<and> BaseOptimizer_init [''canonicalize'' \<mapsto> PyObj] [''zinc.smi'' \<mapsto> [''CCO'', ''CC'']]
        (\<lambda>s. s) [''C'']
        (Some \<lparr>arg_n_jobs = 1, arg_smi_file = Some ''zinc.smi'', arg_output_dir = ''out''\<rparr>) []
     = ((Inl NameError, []) :: (error + int state \<times> string list) \<times> string list)"
proof -
  have h: "[''canonicalize'' \<mapsto> PyObj] ''smi_file'' = None" by simp
  have a: "arg_smi_file \<lparr>arg_n_jobs = 1, arg_smi_file = Some ''zinc.smi'', arg_output_dir = ''out''\<rparr>
        = Some ''zinc.smi''" by simp
  note t = load_smiles_from_file_NameError [of "[''canonicalize'' \<mapsto> PyObj]"
      "[''zinc.smi'' \<mapsto> [''CCO'', ''CC'']]" "\<lambda>s. s" "''zinc.smi''" "[]" "[''C'']", OF h]
  from t have 1: "load_smiles_from_file [''canonicalize'' \<mapsto> PyObj] [''zinc.smi'' \<mapsto> [''CCO'', ''CC'']]
        (\<lambda>s. s) ''zinc.smi'' [] = (Inl NameError, [])"
    by (elim conjE)
  from t have "\<forall>a file_name'. arg_smi_file a = Some file_name' \<longrightarrow>
            BaseOptimizer_init [''canonicalize'' \<mapsto> PyObj] [''zinc.smi'' \<mapsto> [''CCO'', ''CC'']]
              (\<lambda>s. s) [''C''] (Some a) []
              = ((Inl NameError, []) :: (error + int state \<times> string list) \<times> string list)"
    by (elim conjE)
  from this [rule_format, OF a] h a 1 show ?thesis by (intro conjI)
qed


section \<open>\<open>DoG_Gen_Optimizer._optimize\<close>\<close>

lemma DoG_Gen_optimize_delegates:
  assumes "''oracle'' \<in> set attrs"
    and "map_of config ''n_rounds'' = Some r"
    and "map_of config ''n_samples_per_round'' = Some n"
    and "map_of config ''n_samples_to_keep_per_round'' = Some k"
  shows "DoG_Gen_optimize attrs path_here hillclimb oracle config b =
           ((None, hillclimb b),
            [AssignEvaluator (oracle_name oracle), RandomState 5156, TorchManualSeed 5115,
             LoadTupleTrees (os_path_join path_here
               ''scripts/dataset_creation/data/uspto-train-depth_and_tree_tuples.pick''),
             LoadTupleTrees (os_path_join path_here
               ''scripts/dataset_creation/data/uspto-valid-depth_and_tree_tuples.pick''),
             LoadDoggenModel (os_path_join path_here
               ''scripts/dog_gen/chkpts/doggen_weights.pth.pick''),
             SummaryWriter ''tb_logs'', HillclimbingParams r n k,
             RunHillclimbing
               [os_path_join path_here
                  ''scripts/dataset_creation/data/uspto-train-depth_and_tree_tuples.pick'',
                os_path_join path_here
                  ''scripts/dataset_creation/data/uspto-valid-depth_and_tree_tuples.pick'']])"
  using assms by (simp add: DoG_Gen_optimize_def Let_def dict_getitem_def)

text \<open>
  Claim C8. The claim describes what \<open>_optimize\<close> sets out to do, and
  \<open>DoG_Gen_optimize_delegates\<close> is that for an optimizer that has an \<open>oracle\<close> attribute.
  But no \<open>__init__\<close> assigns \<open>self.oracle\<close>: on the optimizer as constructed, the first
  statement \<open>self.oracle.assign_evaluator(oracle)\<close> raises \<open>AttributeError\<close>, nothing is
  loaded and nothing is delegated, and \<open>optimize\<close> ends with that exception right after
  seeding.
\<close>

theorem DoG_Gen_optimize_AttributeError:
  "''oracle'' \<notin> set DoG_Gen_Optimizer_attrs
   \<and> DoG_Gen_optimize DoG_Gen_Optimizer_attrs path_here hillclimb oracle config b
       = ((Some AttributeError, b), [])
   \<and> optimize env (DoG_Gen_method DoG_Gen_Optimizer_attrs path_here hillclimb) oracle config 2 st
       = (Some AttributeError,
          st\<lparr>events := events st @
             [WandbInit (model_name st @ ''_'' @ oracle_name oracle), NpRandomSeed 2]\<rparr>)"
proof -
  have 1: "''oracle'' \<notin> set DoG_Gen_Optimizer_attrs"
    by (simp add: DoG_Gen_Optimizer_attrs_def BaseOptimizer_instance_attrs_def
          BaseOptimizer_methods_def)
  then have 2: "DoG_Gen_optimize DoG_Gen_Optimizer_attrs path_here hillclimb oracle config b
       = ((Some AttributeError, b), [])" for b
    by (simp add: DoG_Gen_optimize_def)
  have 3: "optimize env (DoG_Gen_method DoG_Gen_Optimizer_attrs path_here hillclimb) oracle config 2 st
       = (Some AttributeError,
          st\<lparr>events := events st @
             [WandbInit (model_name st @ ''_'' @ oracle_name oracle), NpRandomSeed 2]\<rparr>)"
    by (simp add: optimize_def Let_def DoG_Gen_method_def 2)
  from 1 2 3 show ?thesis by (intro conjI)
qed

end
